theory Spec2Isabelle
  imports Complex_Main
begin

section \<open>HERR: High Error Rate Routing\<close>

text \<open>
  A shallow embedding of \<^verbatim>\<open>src/HERR.py\<close>. The class \<^verbatim>\<open>HERR\<close> is a record of its
  constructor arguments, its methods are functions that take the record, and every
  exception the Python can raise is a value \<open>Inl e\<close> of a sum type.

  Reliability weights are Python floats; they are modelled as real numbers. Every concrete
  input below uses weights \<open>1\<close>, \<open>1/2\<close> and \<open>1/4\<close> only, on which floating point
  arithmetic is exact.
\<close>

subsection \<open>Exceptions\<close>

datatype error =
  TranspilerError | KeyError | TypeError | DAGCircuitError | CouplingError | IndexError

definition ebind :: "error + 'a \<Rightarrow> ('a \<Rightarrow> error + 'b) \<Rightarrow> error + 'b" where
  "ebind m f = (case m of Inl e \<Rightarrow> Inl e | Inr x \<Rightarrow> f x)"

fun emap :: "('a \<Rightarrow> error + 'b) \<Rightarrow> 'a list \<Rightarrow> error + 'b list" where
  "emap f [] = Inr []"
| "emap f (x # xs) = ebind (f x) (\<lambda>y. ebind (emap f xs) (\<lambda>ys. Inr (y # ys)))"

fun efold :: "('s \<Rightarrow> 'a \<Rightarrow> error + 's) \<Rightarrow> 'a list \<Rightarrow> 's \<Rightarrow> error + 's" where
  "efold f [] s = Inr s"
| "efold f (x # xs) s = ebind (f s x) (efold f xs)"

subsection \<open>Circuits (Qiskit's \<^verbatim>\<open>DAGCircuit\<close>, as far as \<^verbatim>\<open>run\<close> uses it)\<close>

text \<open>
  A qubit is a register name and an index in that register. A circuit has its quantum and
  classical registers (name and size, in insertion order) and its operation nodes in
  topological order. \<^verbatim>\<open>dag.qubits\<close> lists the bits of all quantum registers in order.
\<close>

type_synonym qubit = "string \<times> nat"

record instruction =
  name :: string
  qargs :: "qubit list"
  directive :: bool

record dagcircuit =
  qregs :: "(string \<times> nat) list"
  cregs :: "(string \<times> nat) list"
  op_nodes :: "instruction list"

definition register_bits :: "string \<times> nat \<Rightarrow> qubit list" where
  "register_bits r = map (Pair (fst r)) [0..<snd r]"

definition dag_qubits :: "dagcircuit \<Rightarrow> qubit list" where
  "dag_qubits d = concat (map register_bits (qregs d))"

definition DAGCircuit :: dagcircuit where
  "DAGCircuit = \<lparr>qregs = [], cregs = [], op_nodes = []\<rparr>"

definition add_qreg :: "dagcircuit \<Rightarrow> string \<times> nat \<Rightarrow> error + dagcircuit" where
  "add_qreg d r =
     (if fst r \<in> fst ` set (qregs d) then Inl DAGCircuitError
      else Inr (d\<lparr>qregs := qregs d @ [r]\<rparr>))"

definition add_creg :: "dagcircuit \<Rightarrow> string \<times> nat \<Rightarrow> error + dagcircuit" where
  "add_creg d r =
     (if fst r \<in> fst ` set (cregs d) then Inl DAGCircuitError
      else Inr (d\<lparr>cregs := cregs d @ [r]\<rparr>))"

definition apply_operation_back :: "dagcircuit \<Rightarrow> instruction \<Rightarrow> error + dagcircuit" where
  "apply_operation_back d nd =
     (if set (qargs nd) \<subseteq> set (dag_qubits d)
      then Inr (d\<lparr>op_nodes := op_nodes d @ [nd]\<rparr>)
      else Inl DAGCircuitError)"

text \<open>
  \<^verbatim>\<open>self.compose(other, qubits=order)\<close>: bit \<open>i\<close> of \<open>other\<close> is wired to bit
  \<open>order ! i\<close> of \<open>self\<close>, and the operations of \<open>other\<close> are appended to \<open>self\<close>
  under that wiring.
\<close>

definition compose :: "dagcircuit \<Rightarrow> dagcircuit \<Rightarrow> nat list \<Rightarrow> error + dagcircuit" where
  "compose self other order =
     (if length (dag_qubits other) > length (dag_qubits self) then Inl DAGCircuitError
      else if length order \<noteq> length (dag_qubits other) then Inl DAGCircuitError
      else if \<exists>q \<in> set order. length (dag_qubits self) \<le> q then Inl IndexError
      else
        let qubit_map = map_of (zip (dag_qubits other) (map (\<lambda>q. dag_qubits self ! q) order))
        in Inr (self\<lparr>op_nodes := op_nodes self @
                  map (\<lambda>nd. nd\<lparr>qargs := map (\<lambda>x. case qubit_map x of None \<Rightarrow> x | Some y \<Rightarrow> y)
                                              (qargs nd)\<rparr>)
                      (op_nodes other)\<rparr>))"

text \<open>\<^verbatim>\<open>dag.serial_layers()\<close>: one layer per operation node, with the registers of the circuit.\<close>

definition serial_layers :: "dagcircuit \<Rightarrow> dagcircuit list" where
  "serial_layers d = map (\<lambda>nd. d\<lparr>op_nodes := [nd]\<rparr>) (op_nodes d)"

definition two_qubit_ops :: "dagcircuit \<Rightarrow> instruction list" where
  "two_qubit_ops d = filter (\<lambda>nd. length (qargs nd) = 2 \<and> \<not> directive nd) (op_nodes d)"

definition SwapGate :: "qubit \<Rightarrow> qubit \<Rightarrow> instruction" where
  "SwapGate q1 q2 = \<lparr>name = ''swap'', qargs = [q1, q2], directive = False\<rparr>"

subsection \<open>Layouts (Qiskit's \<^verbatim>\<open>Layout\<close>: two dictionaries)\<close>

record layout =
  v2p :: "qubit \<rightharpoonup> nat"
  p2v :: "nat \<rightharpoonup> qubit"

definition generate_trivial_layout :: "string \<times> nat \<Rightarrow> layout" where
  "generate_trivial_layout r =
     \<lparr>v2p = (\<lambda>b. if fst b = fst r \<and> snd b < snd r then Some (snd b) else None),
      p2v = (\<lambda>p. if p < snd r then Some (fst r, p) else None)\<rparr>"

definition layout_get_v :: "layout \<Rightarrow> qubit \<Rightarrow> error + nat" where
  "layout_get_v L b = (case v2p L b of None \<Rightarrow> Inl KeyError | Some p \<Rightarrow> Inr p)"

definition layout_get_p :: "layout \<Rightarrow> nat \<Rightarrow> error + qubit" where
  "layout_get_p L p = (case p2v L p of None \<Rightarrow> Inl KeyError | Some b \<Rightarrow> Inr b)"

text \<open>\<^verbatim>\<open>layout[physical] = virtual\<close>: both old partners are dropped before the pair is stored.\<close>

definition layout_set :: "layout \<Rightarrow> qubit \<Rightarrow> nat \<Rightarrow> layout" where
  "layout_set L b p =
     (let p2v1 = (case v2p L b of None \<Rightarrow> p2v L | Some old \<Rightarrow> (p2v L)(old := None));
          v2p1 = (v2p L)(b := None);
          v2p2 = (case p2v1 p of None \<Rightarrow> v2p1 | Some old \<Rightarrow> v2p1(old := None))
      in \<lparr>v2p = v2p2(b \<mapsto> p), p2v = p2v1(p \<mapsto> b)\<rparr>)"

definition layout_swap :: "layout \<Rightarrow> nat \<Rightarrow> nat \<Rightarrow> error + layout" where
  "layout_swap L left right =
     ebind (layout_get_p L left) (\<lambda>temp.
     ebind (layout_get_p L right) (\<lambda>r.
     Inr (layout_set (layout_set L r left) temp right)))"

definition reorder_bits :: "layout \<Rightarrow> qubit list \<Rightarrow> error + nat list" where
  "reorder_bits L bits = emap (layout_get_v L) bits"

subsection \<open>The coupling map, the noise graph and the library functions\<close>

text \<open>
  The coupling map is an object of Qiskit; its methods \<^verbatim>\<open>distance\<close> and
  \<^verbatim>\<open>shortest_undirected_path\<close> are fields of the record, so that nothing below depends
  on how the library breaks ties between shortest paths. Both may raise.
\<close>

type_synonym edge = "nat \<times> nat"

record CouplingMap =
  physical_qubits :: "nat list"
  get_edges :: "edge list"
  distance :: "nat \<Rightarrow> nat \<Rightarrow> error + nat"
  shortest_undirected_path :: "nat \<Rightarrow> nat \<Rightarrow> error + nat list"

text \<open>
  Two more library behaviours are parameters: the order in which Python iterates over the
  set made by adding the given tuples one after the other, and
  \<^verbatim>\<open>networkx.shortest_path\<close> on the undirected graph of the given edge list (\<open>None\<close>
  where it raises).
\<close>

record library =
  set_iter :: "edge list \<Rightarrow> edge list"
  nx_shortest_path :: "edge list \<Rightarrow> nat \<Rightarrow> nat \<Rightarrow> nat list option"

text \<open>
  \<^verbatim>\<open>qubitAccuracy\<close> is an undirected \<^verbatim>\<open>networkx.Graph\<close> with a weight on every edge:
  a map on the sorted pair of end points.
\<close>

type_synonym nx_graph = "edge \<rightharpoonup> real"

definition sorted_edge :: "edge \<Rightarrow> edge" where
  "sorted_edge e = (min (fst e) (snd e), max (fst e) (snd e))"

definition nx_has_edge :: "nx_graph \<Rightarrow> nat \<Rightarrow> nat \<Rightarrow> bool" where
  "nx_has_edge g u v \<longleftrightarrow> g (sorted_edge (u, v)) \<noteq> None"

definition nx_weight :: "nx_graph \<Rightarrow> nat \<Rightarrow> nat \<Rightarrow> error + real" where
  "nx_weight g u v = (case g (sorted_edge (u, v)) of None \<Rightarrow> Inl KeyError | Some w \<Rightarrow> Inr w)"

subsection \<open>The pass\<close>

text \<open>
  The functions below keep the names of the methods of \<^verbatim>\<open>HERR\<close>. Where a method has a
  loop or a long branch, the body of the loop or branch is a function of its own, named
  after what it does; the text before it says which lines of \<^verbatim>\<open>HERR.py\<close> it is.
\<close>

record HERR =
  couplingMap :: CouplingMap
  qubitAccuracy :: nx_graph
  initial_layout :: "layout option"
  searchDepth :: int

definition HERR_init :: "CouplingMap \<Rightarrow> nx_graph \<Rightarrow> layout option \<Rightarrow> int \<Rightarrow> HERR" where
  "HERR_init cm acc il depth =
     \<lparr>couplingMap = cm, qubitAccuracy = acc, initial_layout = il, searchDepth = depth\<rparr>"

text \<open>The consecutive pairs \<open>(path[i], path[i+1])\<close> for \<open>i\<close> in \<^verbatim>\<open>range(k)\<close>.\<close>

definition wire_pairs :: "nat \<Rightarrow> nat list \<Rightarrow> edge list" where
  "wire_pairs k path = map (\<lambda>i. (path ! i, path ! Suc i)) [0..<k]"

definition find_path_excluding ::
  "library \<Rightarrow> HERR \<Rightarrow> nat \<Rightarrow> nat \<Rightarrow> nat \<Rightarrow> nat list option" where
  "find_path_excluding lib self sourceQubit destQubit exQubit =
     (if sourceQubit = destQubit then None
      else
        let subGraphEdges =
              filter (\<lambda>e. exQubit \<noteq> fst e \<and> exQubit \<noteq> snd e) (get_edges (couplingMap self));
            nodes = fst ` set subGraphEdges \<union> snd ` set subGraphEdges
        in if sourceQubit \<in> nodes \<and> destQubit \<in> nodes
           then nx_shortest_path lib subGraphEdges sourceQubit destQubit
           else None)"

text \<open>\<^verbatim>\<open>len(x)\<close> raises \<^verbatim>\<open>TypeError\<close> on \<^verbatim>\<open>None\<close>.\<close>

definition py_len :: "nat list option \<Rightarrow> error + nat" where
  "py_len x = (case x of None \<Rightarrow> Inl TypeError | Some xs \<Rightarrow> Inr (length xs))"

text \<open>
  \<^verbatim>\<open>find_shortest_path\<close> returns the list \<^verbatim>\<open>[qubitPath[0], qubitPath[1]]\<close>, here a pair.
  Python's \<^verbatim>\<open>and\<close> does not evaluate its right operand when the left one is false.
  \<^verbatim>\<open>is not\<close> on the qubit numbers is modelled as \<open>\<noteq>\<close> (CPython shares the objects of
  small integers).
\<close>

definition find_shortest_path ::
  "library \<Rightarrow> HERR \<Rightarrow> nat \<times> nat \<Rightarrow> nat \<times> nat \<Rightarrow> error + (nat list option \<times> nat list option)" where
  "find_shortest_path lib self sourceQubits destQubit =
     (let s0 = fst sourceQubits; s1 = snd sourceQubits;
          d0 = fst destQubit; d1 = snd destQubit;
          q0Paths0 = (if d0 \<noteq> s1 then find_path_excluding lib self s0 d0 s1 else None);
          q0Paths1 = (if d1 \<noteq> s1 then find_path_excluding lib self s0 d1 s1 else None);
          q1Paths0 = (if d0 \<noteq> s0 then find_path_excluding lib self s1 d0 s0 else None);
          q1Paths1 = (if d1 \<noteq> s0 then find_path_excluding lib self s1 d1 s0 else None)
      in
      if s0 \<notin> {d0, d1} \<and> s1 \<notin> {d0, d1} then
        ebind (py_len q0Paths0) (\<lambda>l00.
        ebind (py_len q1Paths0) (\<lambda>l10.
        let qubitPath = (if l00 \<le> l10 then (q0Paths0, q1Paths1) else (q0Paths1, q1Paths0)) in
        ebind (py_len q0Paths1) (\<lambda>l01.
        ebind (if l01 < l00 then ebind (py_len q1Paths1) (\<lambda>l11. Inr (l01 < l11)) else Inr False)
          (\<lambda>c0.
        let qubitPath = (if c0 then (q0Paths1, snd qubitPath) else (q0Paths0, snd qubitPath)) in
        ebind (py_len q1Paths1) (\<lambda>l11.
        let c1 = (l11 < l10 \<and> l11 < l01) in
        Inr (if c1 then (fst qubitPath, q1Paths1) else (fst qubitPath, q1Paths0)))))))
      else if s0 \<notin> {d0, d1} then
        (if s1 \<noteq> d0 then Inr (q0Paths1, None) else Inr (q0Paths0, None))
      else if s1 \<notin> {d0, d1} then
        (if s0 \<noteq> d0 then Inr (None, q1Paths0) else Inr (None, q1Paths1))
      else Inr (None, None))"

text \<open>
  The running product of \<^verbatim>\<open>linkAccuracy ** 3\<close> over a list of links: the body of the
  loops in lines 252-256 and 275-283, starting from \<open>accuracy\<close>.
\<close>

fun cube_product :: "nx_graph \<Rightarrow> real \<Rightarrow> edge list \<Rightarrow> error + real" where
  "cube_product g accuracy [] = Inr accuracy"
| "cube_product g accuracy (l # ls) =
     ebind (nx_weight g (fst l) (snd l)) (\<lambda>linkAccuracy.
       cube_product g (accuracy * linkAccuracy ^ 3) ls)"

definition calc_shortest_path_accuracy :: "HERR \<Rightarrow> nat \<Rightarrow> nat \<Rightarrow> error + real" where
  "calc_shortest_path_accuracy self qubit1 qubit2 =
     ebind (shortest_undirected_path (couplingMap self) qubit1 qubit2) (\<lambda>path.
       cube_product (qubitAccuracy self) 1 (wire_pairs (length path - 2) path))"

text \<open>\<^verbatim>\<open>qubitPathAccuracy[i]\<close> of lines 271-283: 1 for no path, else the product over all links.\<close>

definition path_accuracy :: "nx_graph \<Rightarrow> nat list option \<Rightarrow> error + real" where
  "path_accuracy g p =
     (case p of None \<Rightarrow> Inr 1
      | Some path \<Rightarrow> cube_product g 1 (wire_pairs (length path - 1) path))"

definition calc_path_accuracy ::
  "library \<Rightarrow> HERR \<Rightarrow> nat \<times> nat \<Rightarrow> nat \<times> nat \<Rightarrow> layout \<Rightarrow> error + real" where
  "calc_path_accuracy lib self sourceQubits destQubit current_layout =
     ebind (find_shortest_path lib self sourceQubits destQubit) (\<lambda>qubitPath.
       if fst qubitPath = None \<and> snd qubitPath = None then Inr 0
       else
         ebind (path_accuracy (qubitAccuracy self) (fst qubitPath)) (\<lambda>a0.
         ebind (path_accuracy (qubitAccuracy self) (snd qubitPath)) (\<lambda>a1.
         ebind (nx_weight (qubitAccuracy self) (fst destQubit) (snd destQubit)) (\<lambda>opAccuracy.
         Inr (opAccuracy * a0 * a1)))))"

text \<open>
  \<^verbatim>\<open>find_better_link\<close>: \<open>within_depth\<close> is the test of lines 153-156,
  \<open>better_link_step\<close> one round of the loop of lines 151-163 on the state
  \<^verbatim>\<open>(bestEdgeAccuracy, bestEdge, foundBetterEdge)\<close>, \<open>uniqueEdges\<close> the set of lines
  140-143 in the order of its iteration, and \<open>baseline_accuracy\<close> lines 144-147.
\<close>

definition within_depth :: "HERR \<Rightarrow> nat \<Rightarrow> nat \<Rightarrow> edge \<Rightarrow> int \<Rightarrow> error + bool" where
  "within_depth self qubit1 qubit2 edge depth =
     ebind (distance (couplingMap self) qubit1 (fst edge)) (\<lambda>d1.
     if \<not> int d1 \<le> depth then Inr False else
     ebind (distance (couplingMap self) qubit1 (snd edge)) (\<lambda>d2.
     if \<not> int d2 \<le> depth then Inr False else
     ebind (distance (couplingMap self) qubit2 (fst edge)) (\<lambda>d3.
     if \<not> int d3 \<le> depth then Inr False else
     ebind (distance (couplingMap self) qubit2 (snd edge)) (\<lambda>d4.
     Inr (int d4 \<le> depth)))))"

definition better_link_step ::
  "library \<Rightarrow> HERR \<Rightarrow> nat \<Rightarrow> nat \<Rightarrow> layout \<Rightarrow> int \<Rightarrow>
   real \<times> edge \<times> bool \<Rightarrow> edge \<Rightarrow> error + (real \<times> edge \<times> bool)" where
  "better_link_step lib self qubit1 qubit2 currentLayout depth st edge =
     (case st of (bestEdgeAccuracy, bestEdge, foundBetterEdge) \<Rightarrow>
        ebind (within_depth self qubit1 qubit2 edge depth) (\<lambda>near.
        if near then
          ebind (calc_path_accuracy lib self bestEdge edge currentLayout) (\<lambda>newLinkAccuracy.
          if newLinkAccuracy > bestEdgeAccuracy then Inr (newLinkAccuracy, edge, True)
          else Inr st)
        else Inr st))"

definition uniqueEdges :: "library \<Rightarrow> HERR \<Rightarrow> edge list" where
  "uniqueEdges lib self = set_iter lib (map sorted_edge (get_edges (couplingMap self)))"

definition baseline_accuracy :: "HERR \<Rightarrow> nat \<Rightarrow> nat \<Rightarrow> error + real" where
  "baseline_accuracy self qubit1 qubit2 =
     (if nx_has_edge (qubitAccuracy self) qubit1 qubit2
      then nx_weight (qubitAccuracy self) qubit1 qubit2
      else calc_shortest_path_accuracy self qubit1 qubit2)"

definition find_better_link ::
  "library \<Rightarrow> HERR \<Rightarrow> nat \<Rightarrow> nat \<Rightarrow> layout \<Rightarrow> int \<Rightarrow> error + edge option" where
  "find_better_link lib self qubit1 qubit2 currentLayout depth =
     ebind (baseline_accuracy self qubit1 qubit2) (\<lambda>bestEdgeAccuracy.
     ebind (efold (better_link_step lib self qubit1 qubit2 currentLayout depth)
              (uniqueEdges lib self) (bestEdgeAccuracy, (qubit1, qubit2), False))
       (\<lambda>(bestEdgeAccuracy, bestEdge, foundBetterEdge).
          Inr (if foundBetterEdge then Some bestEdge else None)))"

text \<open>
  \<^verbatim>\<open>run\<close>. Both branches that insert swaps have the same three steps for a list of
  wire pairs: \<open>build_swap_layer\<close> (lines 65-81 and 97-111; \<open>swap_instruction\<close> is
  the body of the loop), the composition into \<^verbatim>\<open>new_dag\<close> (lines 84-85 and 114-115), and
  \<open>update_layout\<close> (lines 88-91 and 118-119); \<open>insert_swaps\<close> is the three in this
  order. \<open>chain_pairs\<close> lists the pairs of \<^verbatim>\<open>swapPath[0]\<close>, then those of
  \<^verbatim>\<open>swapPath[1]\<close>, as the loops over \<^verbatim>\<open>range(2)\<close> visit them. \<open>route_gate\<close> is the
  body of the loop over the two-qubit operations of a layer (lines 60-119), and
  \<open>route_layer\<close> the body of the loop over the layers (lines 58-122).
\<close>

definition swap_instruction :: "layout \<Rightarrow> edge \<Rightarrow> error + instruction" where
  "swap_instruction current_layout w =
     ebind (layout_get_p current_layout (fst w)) (\<lambda>qubit_1.
     ebind (layout_get_p current_layout (snd w)) (\<lambda>qubit_2.
     Inr (SwapGate qubit_1 qubit_2)))"

definition build_swap_layer :: "string \<times> nat \<Rightarrow> layout \<Rightarrow> edge list \<Rightarrow> error + dagcircuit" where
  "build_swap_layer canonical_register current_layout ws =
     ebind (add_qreg DAGCircuit canonical_register) (\<lambda>swap_layer.
       efold (\<lambda>d w. ebind (swap_instruction current_layout w) (apply_operation_back d))
         ws swap_layer)"

definition update_layout :: "layout \<Rightarrow> edge list \<Rightarrow> error + layout" where
  "update_layout current_layout ws =
     efold (\<lambda>L w. layout_swap L (fst w) (snd w)) ws current_layout"

definition insert_swaps ::
  "string \<times> nat \<Rightarrow> dagcircuit \<times> layout \<Rightarrow> edge list \<Rightarrow> error + (dagcircuit \<times> layout)" where
  "insert_swaps canonical_register st ws =
     (case st of (new_dag, current_layout) \<Rightarrow>
        ebind (build_swap_layer canonical_register current_layout ws) (\<lambda>swap_layer.
        ebind (reorder_bits current_layout (dag_qubits new_dag)) (\<lambda>order.
        ebind (compose new_dag swap_layer order) (\<lambda>new_dag'.
        ebind (update_layout current_layout ws) (\<lambda>current_layout'.
        Inr (new_dag', current_layout'))))))"

definition chain_pairs :: "nat list option \<times> nat list option \<Rightarrow> edge list" where
  "chain_pairs swapPath =
     (case fst swapPath of None \<Rightarrow> [] | Some p \<Rightarrow> wire_pairs (length p - 1) p) @
     (case snd swapPath of None \<Rightarrow> [] | Some p \<Rightarrow> wire_pairs (length p - 1) p)"

definition route_gate ::
  "library \<Rightarrow> HERR \<Rightarrow> string \<times> nat \<Rightarrow> dagcircuit \<times> layout \<Rightarrow> instruction \<Rightarrow>
   error + (dagcircuit \<times> layout)" where
  "route_gate lib self canonical_register st gate =
     ebind (layout_get_v (snd st) (qargs gate ! 0)) (\<lambda>p0.
     ebind (layout_get_v (snd st) (qargs gate ! 1)) (\<lambda>p1.
     ebind (find_better_link lib self p0 p1 (snd st) (searchDepth self)) (\<lambda>betterEdge.
     case betterEdge of
       Some e \<Rightarrow>
         ebind (find_shortest_path lib self (p0, p1) e) (\<lambda>swapPath.
           insert_swaps canonical_register st (chain_pairs swapPath))
     | None \<Rightarrow>
         ebind (distance (couplingMap self) p0 p1) (\<lambda>d.
         if d \<noteq> 1 then
           ebind (shortest_undirected_path (couplingMap self) p0 p1) (\<lambda>path.
             insert_swaps canonical_register st (wire_pairs (length path - 2) path))
         else Inr st))))"

definition route_layer ::
  "library \<Rightarrow> HERR \<Rightarrow> string \<times> nat \<Rightarrow> dagcircuit \<times> layout \<Rightarrow> dagcircuit \<Rightarrow>
   error + (dagcircuit \<times> layout)" where
  "route_layer lib self canonical_register st subdag =
     ebind (efold (route_gate lib self canonical_register) (two_qubit_ops subdag) st) (\<lambda>st'.
     ebind (reorder_bits (snd st') (dag_qubits (fst st'))) (\<lambda>order.
     ebind (compose (fst st') subdag order) (\<lambda>new_dag.
     Inr (new_dag, snd st'))))"

text \<open>
  \<^verbatim>\<open>run\<close> returns the new circuit; \<open>run_state\<close> is the same computation and also gives
  the layout the loop ends with.
\<close>

definition run_state :: "library \<Rightarrow> HERR \<Rightarrow> dagcircuit \<Rightarrow> error + (dagcircuit \<times> layout)" where
  "run_state lib self dag =
     ebind (efold add_qreg (qregs dag) DAGCircuit) (\<lambda>new_dag.
     ebind (efold add_creg (cregs dag) new_dag) (\<lambda>new_dag.
     if length (dag_qubits dag) > length (physical_qubits (couplingMap self))
     then Inl TranspilerError
     else
       case map_of (qregs dag) ''q'' of
         None \<Rightarrow> Inl KeyError
       | Some n \<Rightarrow>
           let canonical_register = (''q'', n);
               trivial_layout = generate_trivial_layout canonical_register;
               current_layout = trivial_layout
           in efold (route_layer lib self canonical_register) (serial_layers dag)
                (new_dag, current_layout)))"

definition run :: "library \<Rightarrow> HERR \<Rightarrow> dagcircuit \<Rightarrow> error + dagcircuit" where
  "run lib self dag = ebind (run_state lib self dag) (\<lambda>st. Inr (fst st))"

subsection \<open>The pass on a store of circuit objects\<close>

text \<open>
  Python's circuits are objects that methods change in place. Here \<open>run\<close> is written
  once more with the objects in a store: \<^verbatim>\<open>DAGCircuit()\<close> takes the next free address,
  a method that changes its object (\<^verbatim>\<open>add_qreg\<close>, \<^verbatim>\<open>add_creg\<close>,
  \<^verbatim>\<open>apply_operation_back\<close>, \<^verbatim>\<open>compose\<close>) writes the new value at the address of that
  object, and everything else reads. The input circuit is the address \<open>dag\<close>.
  \<^verbatim>\<open>serial_layers\<close> makes a new circuit object for every layer, with the registers of
  the input. The layout is an object of its own (a copy of the trivial layout) and is
  passed as a value, as above.
\<close>

record store =
  objs :: "nat \<Rightarrow> dagcircuit"
  next_free :: nat

definition new_DAGCircuit :: "store \<Rightarrow> nat \<times> store" where
  "new_DAGCircuit h =
     (next_free h, \<lparr>objs = (objs h)(next_free h := DAGCircuit), next_free = Suc (next_free h)\<rparr>)"

definition mutate :: "store \<Rightarrow> nat \<Rightarrow> (dagcircuit \<Rightarrow> error + dagcircuit) \<Rightarrow> error + store" where
  "mutate h a f = ebind (f (objs h a)) (\<lambda>d. Inr (h\<lparr>objs := (objs h)(a := d)\<rparr>))"

definition serial_layer_obj :: "store \<Rightarrow> nat \<Rightarrow> instruction \<Rightarrow> nat \<times> store" where
  "serial_layer_obj h dag nd =
     (case new_DAGCircuit h of (new_layer, h1) \<Rightarrow>
        (new_layer, h1\<lparr>objs := (objs h1)(new_layer := (objs h1 dag)\<lparr>op_nodes := [nd]\<rparr>)\<rparr>))"

definition insert_swaps_obj ::
  "string \<times> nat \<Rightarrow> nat \<Rightarrow> store \<times> layout \<Rightarrow> edge list \<Rightarrow> error + (store \<times> layout)" where
  "insert_swaps_obj canonical_register new_dag st ws =
     (case st of (h, current_layout) \<Rightarrow>
      case new_DAGCircuit h of (swap_layer, h1) \<Rightarrow>
        ebind (mutate h1 swap_layer (\<lambda>d. add_qreg d canonical_register)) (\<lambda>h2.
        ebind (efold (\<lambda>h w. ebind (swap_instruction current_layout w) (\<lambda>g.
                        mutate h swap_layer (\<lambda>d. apply_operation_back d g))) ws h2) (\<lambda>h3.
        ebind (reorder_bits current_layout (dag_qubits (objs h3 new_dag))) (\<lambda>order.
        ebind (mutate h3 new_dag (\<lambda>d. compose d (objs h3 swap_layer) order)) (\<lambda>h4.
        ebind (update_layout current_layout ws) (\<lambda>current_layout'.
        Inr (h4, current_layout')))))))"

definition route_gate_obj ::
  "library \<Rightarrow> HERR \<Rightarrow> string \<times> nat \<Rightarrow> nat \<Rightarrow> store \<times> layout \<Rightarrow> instruction \<Rightarrow>
   error + (store \<times> layout)" where
  "route_gate_obj lib self canonical_register new_dag st gate =
     ebind (layout_get_v (snd st) (qargs gate ! 0)) (\<lambda>p0.
     ebind (layout_get_v (snd st) (qargs gate ! 1)) (\<lambda>p1.
     ebind (find_better_link lib self p0 p1 (snd st) (searchDepth self)) (\<lambda>betterEdge.
     case betterEdge of
       Some e \<Rightarrow>
         ebind (find_shortest_path lib self (p0, p1) e) (\<lambda>swapPath.
           insert_swaps_obj canonical_register new_dag st (chain_pairs swapPath))
     | None \<Rightarrow>
         ebind (distance (couplingMap self) p0 p1) (\<lambda>d.
         if d \<noteq> 1 then
           ebind (shortest_undirected_path (couplingMap self) p0 p1) (\<lambda>path.
             insert_swaps_obj canonical_register new_dag st (wire_pairs (length path - 2) path))
         else Inr st))))"

definition route_layer_obj ::
  "library \<Rightarrow> HERR \<Rightarrow> string \<times> nat \<Rightarrow> nat \<Rightarrow> nat \<Rightarrow> store \<times> layout \<Rightarrow> instruction \<Rightarrow>
   error + (store \<times> layout)" where
  "route_layer_obj lib self canonical_register new_dag dag st nd =
     (case serial_layer_obj (fst st) dag nd of (subdag, h1) \<Rightarrow>
        ebind (efold (route_gate_obj lib self canonical_register new_dag)
                 (two_qubit_ops (objs h1 subdag)) (h1, snd st)) (\<lambda>st'.
        ebind (reorder_bits (snd st') (dag_qubits (objs (fst st') new_dag))) (\<lambda>order.
        ebind (mutate (fst st') new_dag (\<lambda>d. compose d (objs (fst st') subdag) order)) (\<lambda>h'.
        Inr (h', snd st')))))"

definition run_obj ::
  "library \<Rightarrow> HERR \<Rightarrow> store \<Rightarrow> nat \<Rightarrow> error + (nat \<times> store \<times> layout)" where
  "run_obj lib self h dag =
     (case new_DAGCircuit h of (new_dag, h1) \<Rightarrow>
        ebind (efold (\<lambda>h qreg. mutate h new_dag (\<lambda>d. add_qreg d qreg))
                 (qregs (objs h1 dag)) h1) (\<lambda>h2.
        ebind (efold (\<lambda>h creg. mutate h new_dag (\<lambda>d. add_creg d creg))
                 (cregs (objs h2 dag)) h2) (\<lambda>h3.
        if length (dag_qubits (objs h3 dag)) > length (physical_qubits (couplingMap self))
        then Inl TranspilerError
        else
          case map_of (qregs (objs h3 dag)) ''q'' of
            None \<Rightarrow> Inl KeyError
          | Some n \<Rightarrow>
              ebind (efold (route_layer_obj lib self (''q'', n) new_dag dag)
                       (op_nodes (objs h3 dag)) (h3, generate_trivial_layout (''q'', n)))
                (\<lambda>st. Inr (new_dag, fst st, snd st)))))"

subsection \<open>A reference instance of the library functions\<close>

text \<open>
  Breadth-first search on the undirected graph of an edge list, neighbours in the order
  of the edge list. It is used for the concrete inputs only; where a shortest path is
  unique, every implementation returns it.
\<close>

definition neighbours :: "edge list \<Rightarrow> nat \<Rightarrow> nat list" where
  "neighbours es v =
     remdups (concat (map (\<lambda>e. (if fst e = v then [snd e] else []) @
                               (if snd e = v then [fst e] else [])) es))"

fun expand :: "edge list \<Rightarrow> nat list \<Rightarrow> nat list list \<Rightarrow> nat list list" where
  "expand es seen [] = []"
| "expand es seen (p # ps) =
     (let new = filter (\<lambda>n. n \<notin> set seen) (neighbours es (hd p))
      in map (\<lambda>n. n # p) new @ expand es (seen @ new) ps)"

fun bfs :: "edge list \<Rightarrow> nat \<Rightarrow> nat list \<Rightarrow> nat list list \<Rightarrow> nat \<Rightarrow> nat list option" where
  "bfs es t seen frontier 0 = None"
| "bfs es t seen frontier (Suc k) =
     (case find (\<lambda>p. hd p = t) frontier of
        Some p \<Rightarrow> Some (rev p)
      | None \<Rightarrow>
          (let nxt = expand es seen frontier
           in if nxt = [] then None else bfs es t (seen @ map hd nxt) nxt k))"

definition bfs_shortest_path :: "edge list \<Rightarrow> nat \<Rightarrow> nat \<Rightarrow> nat list option" where
  "bfs_shortest_path es s t = bfs es t [s] [[s]] (Suc (length es))"

definition coupling_map_of :: "nat \<Rightarrow> edge list \<Rightarrow> CouplingMap" where
  "coupling_map_of n es =
     \<lparr>physical_qubits = [0..<n],
      get_edges = es,
      distance = (\<lambda>p q. if p < n \<and> q < n
                    then (case bfs_shortest_path es p q of
                            None \<Rightarrow> Inl CouplingError | Some path \<Rightarrow> Inr (length path - 1))
                    else Inl CouplingError),
      shortest_undirected_path = (\<lambda>p q.
                    case bfs_shortest_path es p q of
                      None \<Rightarrow> Inl CouplingError | Some path \<Rightarrow> Inr path)\<rparr>"

text \<open>A set that iterates in insertion order, and breadth-first search.\<close>

definition reference_library :: library where
  "reference_library =
     \<lparr>set_iter = (\<lambda>xs. rev (remdups (rev xs))), nx_shortest_path = bfs_shortest_path\<rparr>"

definition weights_of :: "(edge \<times> real) list \<Rightarrow> nx_graph" where
  "weights_of ws = map_of (map (\<lambda>(e, w). (sorted_edge e, w)) ws)"

subsection \<open>Concrete devices and programs\<close>

definition cx :: "nat \<Rightarrow> nat \<Rightarrow> instruction" where
  "cx a b = \<lparr>name = ''cx'', qargs = [(''q'', a), (''q'', b)], directive = False\<rparr>"

definition program :: "nat \<Rightarrow> instruction list \<Rightarrow> dagcircuit" where
  "program n ops = \<lparr>qregs = [(''q'', n)], cregs = [], op_nodes = ops\<rparr>"

text \<open>
  A ring of five qubits, \<open>1 - 0 - 2 - 4 - 3 - 1\<close>, with one weak link \<open>(0, 1)\<close>. Every
  shortest path that is asked for on this ring is unique. The ring takes the list of its
  edges as a parameter, and the insertion order of \<open>reference_library\<close> makes that list
  the order in which the loop of \<^verbatim>\<open>find_better_link\<close> sees the edges. Three orders are
  used: the one in which CPython 3.8 and later iterate over the set of these five tuples,
  the one that the tuple hash of CPython 3.7 and earlier gives, and the sorted one.
\<close>

definition ring5 :: "edge list \<Rightarrow> HERR" where
  "ring5 es = HERR_init (coupling_map_of 5 es)
     (weights_of [((0, 1), 1 / 2), ((0, 2), 1), ((1, 3), 1), ((2, 4), 1), ((3, 4), 1)])
     None 2"

definition order_py38 :: "edge list" where
  "order_py38 = [(0, 1), (2, 4), (3, 4), (0, 2), (1, 3)]"

definition order_py37 :: "edge list" where
  "order_py37 = [(0, 1), (1, 3), (2, 4), (3, 4), (0, 2)]"

definition order_sorted :: "edge list" where
  "order_sorted = [(0, 1), (0, 2), (1, 3), (2, 4), (3, 4)]"



definition line3u :: "layout option \<Rightarrow> HERR" where
  "line3u il = HERR_init (coupling_map_of 3 [(0, 1), (1, 2)])
     (weights_of [((0, 1), 1 / 2), ((1, 2), 1 / 2)]) il 2"


definition ring4w :: HERR where
  "ring4w = HERR_init (coupling_map_of 4 [(0, 1), (1, 2), (2, 3), (0, 3)])
     (weights_of [((0, 1), 1 / 4), ((1, 2), 1), ((2, 3), 1), ((0, 3), 1)]) None 2"

definition triangle :: HERR where
  "triangle = HERR_init (coupling_map_of 3 [(0, 1), (0, 2), (1, 2)])
     (weights_of [((0, 1), 1 / 4), ((0, 2), 1), ((1, 2), 1)]) None 2"

text \<open>A layout of three qubits in which logical qubits 0 and 1 have changed places.\<close>

definition swapped01 :: layout where
  "swapped01 = \<lparr>v2p = [(''q'', 0) \<mapsto> 1, (''q'', 1) \<mapsto> 0, (''q'', 2) \<mapsto> 2],
                 p2v = [1 \<mapsto> (''q'', 0), 0 \<mapsto> (''q'', 1), 2 \<mapsto> (''q'', 2)]\<rparr>"

text \<open>A store whose only allocated object is the given circuit, at address 0.\<close>

definition store_of :: "dagcircuit \<Rightarrow> store" where
  "store_of d = \<lparr>objs = (\<lambda>a. d), next_free = 1\<rparr>"

subsection \<open>Notions used in the statements\<close>




text \<open>
  A layout is a bijection between the \<open>n\<close> qubits of register \<open>q\<close> and the physical
  qubits \<open>0, ..., n - 1\<close>: the two dictionaries are inverse to each other and have
  exactly these domains.
\<close>

definition layout_bij :: "nat \<Rightarrow> layout \<Rightarrow> bool" where
  "layout_bij n L \<longleftrightarrow>
     (\<forall>p b. p2v L p = Some b \<longleftrightarrow> v2p L b = Some p)
     \<and> dom (p2v L) = {..<n}
     \<and> dom (v2p L) = Pair ''q'' ` {..<n}"


text \<open>Re-addressing through a layout: a qubit of the layout becomes the qubit of register
  \<open>q\<close> at its physical index.\<close>

definition readdress :: "layout \<Rightarrow> qubit \<Rightarrow> qubit" where
  "readdress L b = (case v2p L b of None \<Rightarrow> b | Some p \<Rightarrow> (''q'', p))"

text \<open>
  \<open>run\<close> in the words of the specification of the starting layout: the loop starts from
  the layout given to the constructor, and from the trivial one when none was given.
\<close>

definition spec_run :: "library \<Rightarrow> HERR \<Rightarrow> dagcircuit \<Rightarrow> error + dagcircuit" where
  "spec_run lib self dag =
     ebind (efold add_qreg (qregs dag) DAGCircuit) (\<lambda>new_dag.
     ebind (efold add_creg (cregs dag) new_dag) (\<lambda>new_dag.
     if length (dag_qubits dag) > length (physical_qubits (couplingMap self))
     then Inl TranspilerError
     else
       case map_of (qregs dag) ''q'' of
         None \<Rightarrow> Inl KeyError
       | Some n \<Rightarrow>
           let canonical_register = (''q'', n);
               current_layout = (case initial_layout self of
                                   None \<Rightarrow> generate_trivial_layout canonical_register
                                 | Some l \<Rightarrow> l)
           in ebind (efold (route_layer lib self canonical_register) (serial_layers dag)
                       (new_dag, current_layout)) (\<lambda>st. Inr (fst st))))"


section \<open>Properties\<close>

subsection \<open>Auxiliary facts\<close>

subsubsection \<open>Errors\<close>

lemma ebind_Inl [simp]: "ebind (Inl e) f = Inl e"
  by (simp add: ebind_def)

lemma ebind_Inr [simp]: "ebind (Inr x) f = f x"
  by (simp add: ebind_def)

lemma ebind_eq_Inr: "ebind m f = Inr y \<longleftrightarrow> (\<exists>x. m = Inr x \<and> f x = Inr y)"
  by (cases m) simp_all

subsubsection \<open>Layouts that are bijections\<close>

lemma layout_bij_inv: "layout_bij n L \<Longrightarrow> (p2v L p = Some b) = (v2p L b = Some p)"
  unfolding layout_bij_def by blast

lemma layout_bij_dom_p: "layout_bij n L \<Longrightarrow> dom (p2v L) = {..<n}"
  unfolding layout_bij_def by blast

lemma layout_bij_dom_v: "layout_bij n L \<Longrightarrow> dom (v2p L) = Pair ''q'' ` {..<n}"
  unfolding layout_bij_def by blast

lemma layout_bij_v2p_inj:
  "layout_bij n L \<Longrightarrow> v2p L c = Some p \<Longrightarrow> v2p L d = Some p \<Longrightarrow> c = d"
  by (metis layout_bij_inv option.inject)

lemma trivial_layout_bij: "layout_bij n (generate_trivial_layout (''q'', n))"
  by (auto simp: layout_bij_def generate_trivial_layout_def dom_def image_iff split: if_splits)

lemma layout_bij_p2v: "layout_bij n L \<Longrightarrow> p < n \<Longrightarrow> \<exists>i<n. p2v L p = Some (''q'', i)"
proof -
  assume a: "layout_bij n L" "p < n"
  then have "p \<in> dom (p2v L)" by (simp add: layout_bij_dom_p)
  then obtain b where b: "p2v L p = Some b" by auto
  with a have "v2p L b = Some p" by (simp add: layout_bij_inv)
  then have "b \<in> dom (v2p L)" by auto
  with a have "b \<in> Pair ''q'' ` {..<n}" by (simp add: layout_bij_dom_v)
  with b show ?thesis by auto
qed

lemma layout_bij_v2p: "layout_bij n L \<Longrightarrow> i < n \<Longrightarrow> \<exists>p<n. v2p L (''q'', i) = Some p"
proof -
  assume a: "layout_bij n L" "i < n"
  then have "(''q'', i) \<in> dom (v2p L)" by (simp add: layout_bij_dom_v)
  then obtain p where p: "v2p L (''q'', i) = Some p" by auto
  with a have "p2v L p = Some (''q'', i)" by (simp add: layout_bij_inv)
  then have "p \<in> dom (p2v L)" by auto
  with a have "p < n" by (simp add: layout_bij_dom_p)
  with p show ?thesis by auto
qed

lemma layout_swap_explicit:
  assumes bij: "layout_bij n L" and a: "p2v L a = Some va" and b: "p2v L b = Some vb"
  shows "layout_swap L a b =
           Inr \<lparr>v2p = (v2p L)(vb \<mapsto> a, va \<mapsto> b), p2v = (p2v L)(a \<mapsto> vb, b \<mapsto> va)\<rparr>"
proof -
  from bij a b have va: "v2p L va = Some a" and vb: "v2p L vb = Some b"
    by (simp_all add: layout_bij_inv)
  have inj: "va = vb \<longleftrightarrow> a = b"
    using a b va vb by auto
  show ?thesis
  proof (cases "a = b")
    case True
    with a b have "va = vb" by simp
    with True a va show ?thesis
      by (auto simp: layout_swap_def layout_get_p_def layout_set_def fun_upd_idem)
  next
    case False
    with inj have "va \<noteq> vb" by simp
    with False a b va vb show ?thesis
      by (auto simp: layout_swap_def layout_get_p_def layout_set_def fun_upd_twist)
  qed
qed

lemma layout_swap_bij:
  assumes bij: "layout_bij n L" and sw: "layout_swap L a b = Inr L'"
  shows "layout_bij n L'"
proof -
  from sw obtain va vb where a: "p2v L a = Some va" and b: "p2v L b = Some vb"
    by (auto simp: layout_swap_def layout_get_p_def ebind_eq_Inr split: option.splits)
  from layout_swap_explicit [OF bij a b] sw
  have L': "L' = \<lparr>v2p = (v2p L)(vb \<mapsto> a, va \<mapsto> b), p2v = (p2v L)(a \<mapsto> vb, b \<mapsto> va)\<rparr>"
    by simp
  from bij a b have va: "v2p L va = Some a" and vb: "v2p L vb = Some b"
    by (simp_all add: layout_bij_inv)
  have inj: "va = vb \<longleftrightarrow> a = b"
    using a b va vb by auto
  from a b have an: "a \<in> {..<n}" and bn: "b \<in> {..<n}"
    unfolding layout_bij_dom_p [OF bij, symmetric] by auto
  from va vb have vaq: "va \<in> Pair ''q'' ` {..<n}" and vbq: "vb \<in> Pair ''q'' ` {..<n}"
    unfolding layout_bij_dom_v [OF bij, symmetric] by auto
  have inv: "p2v L' p = Some c \<longleftrightarrow> v2p L' c = Some p" for p c
    using layout_bij_inv [OF bij, of p c] a b va vb inj unfolding L'
    by (auto simp: fun_upd_def layout_bij_inv [OF bij] dest: layout_bij_v2p_inj [OF bij])
  have d1: "dom (p2v L') = {..<n}"
    using layout_bij_dom_p [OF bij] an bn unfolding L' by auto
  have d2: "dom (v2p L') = Pair ''q'' ` {..<n}"
    using layout_bij_dom_v [OF bij] vaq vbq unfolding L' by auto
  from inv d1 d2 show ?thesis
    by (simp add: layout_bij_def)
qed


subsubsection \<open>What a run appends to the output\<close>

lemma efold_invariant:
  assumes "efold f xs s = Inr s'" and "P s"
    and "\<And>s x s'. P s \<Longrightarrow> x \<in> set xs \<Longrightarrow> f s x = Inr s' \<Longrightarrow> P s'"
  shows "P s'"
  using assms
proof (induction xs arbitrary: s)
  case Nil
  then show ?case by simp
next
  case (Cons x xs)
  from Cons.prems(1) obtain s1 where s1: "f s x = Inr s1" and rest: "efold f xs s1 = Inr s'"
    by (auto simp: ebind_eq_Inr)
  from Cons.prems(3) [OF Cons.prems(2) _ s1] have "P s1"
    by simp
  show ?case
  proof (rule Cons.IH [OF rest \<open>P s1\<close>])
    fix t y t'
    assume "P t" "y \<in> set xs" "f t y = Inr t'"
    then show "P t'"
      using Cons.prems(3) [of t y t'] by simp
  qed
qed

lemma update_layout_bij:
  assumes "update_layout L ws = Inr L'" and "layout_bij n L"
  shows "layout_bij n L'"
  using assms unfolding update_layout_def
  by (rule efold_invariant [where P = "layout_bij n"]) (auto intro: layout_swap_bij)

lemma apply_operation_back_Inr:
  "apply_operation_back d g = Inr d' \<Longrightarrow> d' = d\<lparr>op_nodes := op_nodes d @ [g]\<rparr>"
  by (auto simp: apply_operation_back_def split: if_splits)

lemma swap_instruction_Inr: "swap_instruction L w = Inr g \<Longrightarrow> \<exists>a b. g = SwapGate a b"
  by (auto simp: swap_instruction_def ebind_eq_Inr)

lemma swap_layer_fold:
  "efold (\<lambda>d w. ebind (swap_instruction L w) (apply_operation_back d)) ws d0 = Inr d \<Longrightarrow>
   \<exists>gs. d = d0\<lparr>op_nodes := op_nodes d0 @ gs\<rparr> \<and> emap (swap_instruction L) ws = Inr gs"
proof (induction ws arbitrary: d0)
  case Nil
  then show ?case by simp
next
  case (Cons w ws)
  from Cons.prems obtain g d1 where g: "swap_instruction L w = Inr g"
    and d1: "apply_operation_back d0 g = Inr d1"
    and rest: "efold (\<lambda>d w. ebind (swap_instruction L w) (apply_operation_back d)) ws d1 = Inr d"
    by (auto simp: ebind_eq_Inr)
  from Cons.IH [OF rest] obtain gs where gs: "d = d1\<lparr>op_nodes := op_nodes d1 @ gs\<rparr>"
    and em: "emap (swap_instruction L) ws = Inr gs"
    by blast
  from apply_operation_back_Inr [OF d1] gs have "d = d0\<lparr>op_nodes := op_nodes d0 @ (g # gs)\<rparr>"
    by simp
  with g em show ?case
    by auto
qed

lemma emap_Inr_length: "emap f xs = Inr ys \<Longrightarrow> length ys = length xs"
  by (induction xs arbitrary: ys) (auto simp: ebind_eq_Inr)

lemma emap_Inr_set: "emap f xs = Inr ys \<Longrightarrow> y \<in> set ys \<Longrightarrow> \<exists>x \<in> set xs. f x = Inr y"
  by (induction xs arbitrary: ys) (auto simp: ebind_eq_Inr)

lemma build_swap_layer_Inr:
  "build_swap_layer r L ws = Inr sl \<Longrightarrow>
   emap (swap_instruction L) ws = Inr (op_nodes sl) \<and> qregs sl = [r] \<and> cregs sl = []"
  by (auto simp: build_swap_layer_def add_qreg_def DAGCircuit_def ebind_eq_Inr
      dest!: swap_layer_fold split: if_splits)

lemma compose_Inr:
  "compose nd other order = Inr nd' \<Longrightarrow>
   \<exists>f. nd' = nd\<lparr>op_nodes := op_nodes nd @
                  map (\<lambda>g. g\<lparr>qargs := map f (qargs g)\<rparr>) (op_nodes other)\<rparr>"
  by (auto simp: compose_def Let_def split: if_splits)

lemma readdressed_swaps:
  assumes "\<forall>g \<in> set gs. \<exists>a b. g = SwapGate a b"
  shows "\<forall>s \<in> set (map (\<lambda>g. g\<lparr>qargs := map f (qargs g)\<rparr>) gs). \<exists>a b. s = SwapGate a b"
  using assms by (force simp: SwapGate_def)

lemma insert_swaps_Inr:
  assumes "insert_swaps r (nd, L) ws = Inr (nd', L')"
  shows "\<exists>sw. nd' = nd\<lparr>op_nodes := op_nodes nd @ sw\<rparr>
           \<and> (\<forall>s \<in> set sw. \<exists>a b. s = SwapGate a b)
           \<and> length sw = length ws
           \<and> update_layout L ws = Inr L'"
proof -
  from assms obtain sl order where sl: "build_swap_layer r L ws = Inr sl"
    and co: "compose nd sl order = Inr nd'" and up: "update_layout L ws = Inr L'"
    by (auto simp: insert_swaps_def ebind_eq_Inr)
  from build_swap_layer_Inr [OF sl] have em: "emap (swap_instruction L) ws = Inr (op_nodes sl)"
    by simp
  then have sw: "\<forall>g \<in> set (op_nodes sl). \<exists>a b. g = SwapGate a b"
    by (auto dest!: emap_Inr_set swap_instruction_Inr)
  from compose_Inr [OF co] obtain f where
    nd': "nd' = nd\<lparr>op_nodes := op_nodes nd @
                     map (\<lambda>g. g\<lparr>qargs := map f (qargs g)\<rparr>) (op_nodes sl)\<rparr>"
    by blast
  from readdressed_swaps [OF sw] emap_Inr_length [OF em] nd' up show ?thesis
    by (intro exI [of _ "map (\<lambda>g. g\<lparr>qargs := map f (qargs g)\<rparr>) (op_nodes sl)"]) simp
qed

lemma route_gate_Inr:
  assumes "route_gate lib self r (nd, L) gate = Inr (nd', L')"
  shows "\<exists>sw. nd' = nd\<lparr>op_nodes := op_nodes nd @ sw\<rparr>
           \<and> (\<forall>s \<in> set sw. \<exists>a b. s = SwapGate a b)"
proof -
  have triv: "\<exists>sw. nd = nd\<lparr>op_nodes := op_nodes nd @ sw\<rparr>
                \<and> (\<forall>s \<in> set sw. \<exists>a b. s = SwapGate a b)"
    by (intro exI [of _ "[]"]) simp
  from assms consider
      ws where "insert_swaps r (nd, L) ws = Inr (nd', L')"
    | "nd' = nd"
    by (auto simp: route_gate_def ebind_eq_Inr split: option.splits if_splits)
  then show ?thesis
  proof cases
    case 1
    from insert_swaps_Inr [OF 1] show ?thesis by blast
  next
    case 2
    with triv show ?thesis by simp
  qed
qed

lemma route_gates_Inr:
  "efold (route_gate lib self r) gates (nd, L) = Inr (nd', L') \<Longrightarrow>
   \<exists>sw. nd' = nd\<lparr>op_nodes := op_nodes nd @ sw\<rparr> \<and> (\<forall>s \<in> set sw. \<exists>a b. s = SwapGate a b)"
proof (induction gates arbitrary: nd L)
  case Nil
  then show ?case by (intro exI [of _ "[]"]) simp
next
  case (Cons g gates)
  from Cons.prems obtain nd1 L1 where
    one: "route_gate lib self r (nd, L) g = Inr (nd1, L1)"
    and rest: "efold (route_gate lib self r) gates (nd1, L1) = Inr (nd', L')"
    by (auto simp: ebind_eq_Inr)
  from route_gate_Inr [OF one] obtain sw1 where
    sw1: "nd1 = nd\<lparr>op_nodes := op_nodes nd @ sw1\<rparr>" "\<forall>s \<in> set sw1. \<exists>a b. s = SwapGate a b"
    by blast
  from Cons.IH [OF rest] obtain sw2 where
    sw2: "nd' = nd1\<lparr>op_nodes := op_nodes nd1 @ sw2\<rparr>" "\<forall>s \<in> set sw2. \<exists>a b. s = SwapGate a b"
    by blast
  from sw1 sw2 show ?case
    by (intro exI [of _ "sw1 @ sw2"]) auto
qed






subsubsection \<open>The layout through a run\<close>

lemma insert_swaps_bij:
  "insert_swaps r (nd, L) ws = Inr (nd', L') \<Longrightarrow> layout_bij n L \<Longrightarrow> layout_bij n L'"
  by (auto dest!: insert_swaps_Inr intro: update_layout_bij)

lemma route_gate_bij:
  assumes "route_gate lib self r st gate = Inr st'" and "layout_bij n (snd st)"
  shows "layout_bij n (snd st')"
proof -
  obtain nd L nd' L' where st: "st = (nd, L)" "st' = (nd', L')"
    by (cases st, cases st') auto
  from assms(1) consider
      ws where "insert_swaps r (nd, L) ws = Inr (nd', L')"
    | "L' = L"
    unfolding st
    by (auto simp: route_gate_def ebind_eq_Inr split: option.splits if_splits)
  then show ?thesis
    using assms(2) unfolding st by cases (auto intro: insert_swaps_bij)
qed

lemma route_layer_bij:
  assumes "route_layer lib self r st subdag = Inr st'" and "layout_bij n (snd st)"
  shows "layout_bij n (snd st')"
proof -
  from assms(1) obtain st1 where
    gates: "efold (route_gate lib self r) (two_qubit_ops subdag) st = Inr st1"
    and L: "snd st' = snd st1"
    by (auto simp: route_layer_def ebind_eq_Inr)
  from gates assms(2) have "layout_bij n (snd st1)"
    by (rule efold_invariant [where P = "\<lambda>s. layout_bij n (snd s)"])
       (rule route_gate_bij)
  with L show ?thesis by simp
qed

lemma run_state_bij:
  assumes "run_state lib self dag = Inr st" and "map_of (qregs dag) ''q'' = Some n"
  shows "layout_bij n (snd st)"
proof -
  from assms obtain nd1 where
    layers: "efold (route_layer lib self (''q'', n)) (serial_layers dag)
               (nd1, generate_trivial_layout (''q'', n)) = Inr st"
    by (auto simp: run_state_def ebind_eq_Inr Let_def split: if_splits)
  then show ?thesis
    by (rule efold_invariant [where P = "\<lambda>s. layout_bij n (snd s)"])
       (auto intro: route_layer_bij trivial_layout_bij)
qed

lemma layout_bij_roundtrip_p:
  assumes "layout_bij n L" and "p < n"
  shows "ebind (layout_get_p L p) (layout_get_v L) = Inr p"
proof -
  from layout_bij_p2v [OF assms] obtain b where b: "p2v L p = Some b"
    by blast
  with assms(1) have "v2p L b = Some p"
    by (simp add: layout_bij_inv)
  with b show ?thesis
    by (simp add: layout_get_p_def layout_get_v_def)
qed

lemma layout_bij_roundtrip_v:
  assumes "layout_bij n L" and "i < n"
  shows "ebind (layout_get_v L (''q'', i)) (layout_get_p L) = Inr (''q'', i)"
proof -
  from layout_bij_v2p [OF assms] obtain p where p: "v2p L (''q'', i) = Some p"
    by blast
  with assms(1) have "p2v L p = Some (''q'', i)"
    by (simp add: layout_bij_inv)
  with p show ?thesis
    by (simp add: layout_get_p_def layout_get_v_def)
qed

subsubsection \<open>Products of weights\<close>




subsubsection \<open>The field \<open>initial_layout\<close> is never read\<close>

lemma find_path_excluding_il [simp]:
  "find_path_excluding lib (self\<lparr>initial_layout := il\<rparr>) = find_path_excluding lib self"
  by (intro ext) (simp add: find_path_excluding_def Let_def cong: if_cong option.case_cong prod.case_cong)

lemma find_shortest_path_il [simp]:
  "find_shortest_path lib (self\<lparr>initial_layout := il\<rparr>) = find_shortest_path lib self"
  by (intro ext) (simp add: find_shortest_path_def Let_def cong: if_cong option.case_cong prod.case_cong)

lemma calc_shortest_path_accuracy_il [simp]:
  "calc_shortest_path_accuracy (self\<lparr>initial_layout := il\<rparr>) = calc_shortest_path_accuracy self"
  by (intro ext) (simp add: calc_shortest_path_accuracy_def Let_def cong: if_cong option.case_cong prod.case_cong)

lemma calc_path_accuracy_il [simp]:
  "calc_path_accuracy lib (self\<lparr>initial_layout := il\<rparr>) = calc_path_accuracy lib self"
  by (intro ext) (simp add: calc_path_accuracy_def Let_def cong: if_cong option.case_cong prod.case_cong)

lemma within_depth_il [simp]:
  "within_depth (self\<lparr>initial_layout := il\<rparr>) = within_depth self"
  by (intro ext) (simp add: within_depth_def Let_def cong: if_cong option.case_cong prod.case_cong)

lemma better_link_step_il [simp]:
  "better_link_step lib (self\<lparr>initial_layout := il\<rparr>) = better_link_step lib self"
  by (intro ext) (simp add: better_link_step_def Let_def cong: if_cong option.case_cong prod.case_cong)

lemma find_better_link_il [simp]:
  "find_better_link lib (self\<lparr>initial_layout := il\<rparr>) = find_better_link lib self"
  by (intro ext) (simp add: find_better_link_def baseline_accuracy_def uniqueEdges_def Let_def cong: if_cong option.case_cong prod.case_cong)

lemma route_gate_il [simp]:
  "route_gate lib (self\<lparr>initial_layout := il\<rparr>) = route_gate lib self"
  by (intro ext) (simp add: route_gate_def Let_def cong: if_cong option.case_cong prod.case_cong)

lemma route_layer_il [simp]:
  "route_layer lib (self\<lparr>initial_layout := il\<rparr>) = route_layer lib self"
  by (intro ext) (simp add: route_layer_def Let_def cong: if_cong option.case_cong prod.case_cong)

subsubsection \<open>Composition through a layout that is a bijection\<close>

lemma dag_qubits_single: "qregs d = [(''q'', n)] \<Longrightarrow> dag_qubits d = map (Pair ''q'') [0..<n]"
  by (simp add: dag_qubits_def register_bits_def)

lemma emap_all: "(\<And>x. x \<in> set xs \<Longrightarrow> f x = Inr (g x)) \<Longrightarrow> emap f xs = Inr (map g xs)"
  by (induction xs) simp_all

lemma compose_layout:
  assumes bij: "layout_bij n L" and q: "qregs nd = [(''q'', n)]" and qo: "qregs other = [(''q'', n)]"
  shows "\<exists>order. reorder_bits L (dag_qubits nd) = Inr order
           \<and> compose nd other order
               = Inr (nd\<lparr>op_nodes := op_nodes nd @
                       map (\<lambda>g. g\<lparr>qargs := map (readdress L) (qargs g)\<rparr>) (op_nodes other)\<rparr>)"
proof -
  define bits where "bits = map (Pair ''q'') [0..<n]"
  define ph where "ph = (\<lambda>b. case v2p L b of None \<Rightarrow> 0 | Some p \<Rightarrow> p)"
  have len: "length bits = n"
    by (simp add: bits_def)
  have bits: "dag_qubits nd = bits" "dag_qubits other = bits"
    using q qo by (simp_all add: dag_qubits_single bits_def)
  have in_bits: "v2p L b = Some (ph b) \<and> ph b < n" if "b \<in> set bits" for b
  proof -
    from that obtain i where "i < n" "b = (''q'', i)"
      by (auto simp: bits_def)
    with layout_bij_v2p [OF bij, of i] show ?thesis
      by (auto simp: ph_def)
  qed
  have out_bits: "v2p L b = None" if "b \<notin> set bits" for b
  proof -
    from that have "b \<notin> dom (v2p L)"
      by (auto simp: layout_bij_dom_v [OF bij] bits_def)
    then show ?thesis by auto
  qed
  have order: "reorder_bits L bits = Inr (map ph bits)"
    unfolding reorder_bits_def
    by (rule emap_all) (simp add: layout_get_v_def in_bits)
  have small: "\<not> (\<exists>q \<in> set (map ph bits). length bits \<le> q)"
  proof
    assume "\<exists>q \<in> set (map ph bits). length bits \<le> q"
    then obtain b where "b \<in> set bits" "n \<le> ph b"
      by (auto simp: len)
    with in_bits [of b] show False
      by simp
  qed
  have "map (\<lambda>q. bits ! q) (map ph bits) = map (\<lambda>b. bits ! ph b) bits"
    by simp
  then have qm: "map_of (zip bits (map (\<lambda>q. bits ! q) (map ph bits)))
                   = (\<lambda>x. if x \<in> set bits then Some (bits ! ph x) else None)"
    by (simp only: map_of_zip_map)
  have re: "(case (if x \<in> set bits then Some (bits ! ph x) else None) of
              None \<Rightarrow> x | Some y \<Rightarrow> y) = readdress L x" for x
  proof (cases "x \<in> set bits")
    case True
    with in_bits [OF True] show ?thesis
      by (simp add: readdress_def bits_def)
  next
    case False
    with out_bits [OF False] show ?thesis
      by (simp add: readdress_def)
  qed
  have "compose nd other (map ph bits)
          = Inr (nd\<lparr>op_nodes := op_nodes nd @
                   map (\<lambda>g. g\<lparr>qargs := map (readdress L) (qargs g)\<rparr>) (op_nodes other)\<rparr>)"
    unfolding compose_def bits using small
    by (simp add: len qm re del: map_map)
  with order bits show ?thesis
    by auto
qed





subsubsection \<open>The run on the store and the run on values\<close>

lemma mutate_Inr:
  "mutate h a f = Inr h' \<longleftrightarrow> (\<exists>d. f (objs h a) = Inr d \<and> h' = h\<lparr>objs := (objs h)(a := d)\<rparr>)"
  by (auto simp: mutate_def ebind_eq_Inr)

lemma efold_mutate:
  assumes "efold (\<lambda>h x. mutate h a (F x)) xs h = Inr h'"
  shows "efold (\<lambda>d x. F x d) xs (objs h a) = Inr (objs h' a)
         \<and> next_free h' = next_free h \<and> (\<forall>b. b \<noteq> a \<longrightarrow> objs h' b = objs h b)"
  using assms
proof (induction xs arbitrary: h)
  case Nil
  then show ?case by simp
next
  case (Cons x xs)
  from Cons.prems obtain d where d: "F x (objs h a) = Inr d"
    and rest: "efold (\<lambda>h x. mutate h a (F x)) xs (h\<lparr>objs := (objs h)(a := d)\<rparr>) = Inr h'"
    by (auto simp: ebind_eq_Inr mutate_Inr)
  from Cons.IH [OF rest] d show ?case
    by simp
qed

lemma ebind_assoc: "ebind (ebind m f) g = ebind m (\<lambda>x. ebind (f x) g)"
  by (cases m) simp_all

lemma swap_loop_mutate:
  "(\<lambda>h w. ebind (swap_instruction L w) (\<lambda>g. mutate h a (\<lambda>d. apply_operation_back d g)))
   = (\<lambda>h w. mutate h a (\<lambda>d. ebind (swap_instruction L w) (apply_operation_back d)))"
  by (intro ext) (simp add: mutate_def ebind_assoc)

lemma insert_swaps_obj_sim:
  assumes "insert_swaps_obj r nd (h, L) ws = Inr (h', L')" and "nd < next_free h"
  shows "insert_swaps r (objs h nd, L) ws = Inr (objs h' nd, L')
         \<and> next_free h \<le> next_free h'
         \<and> (\<forall>a<next_free h. a \<noteq> nd \<longrightarrow> objs h' a = objs h a)"
proof -
  let ?sl = "next_free h"
  let ?h1 = "\<lparr>objs = (objs h)(?sl := DAGCircuit), next_free = Suc ?sl\<rparr>"
  from assms(1) obtain h2 h3 order where
    h2: "mutate ?h1 ?sl (\<lambda>d. add_qreg d r) = Inr h2"
    and h3: "efold (\<lambda>h w. mutate h ?sl (\<lambda>d. ebind (swap_instruction L w) (apply_operation_back d)))
               ws h2 = Inr h3"
    and order: "reorder_bits L (dag_qubits (objs h3 nd)) = Inr order"
    and h4: "mutate h3 nd (\<lambda>d. compose d (objs h3 ?sl) order) = Inr h'"
    and L': "update_layout L ws = Inr L'"
    by (auto simp: insert_swaps_obj_def new_DAGCircuit_def ebind_eq_Inr swap_loop_mutate)
  from h2 obtain d0 where d0: "add_qreg DAGCircuit r = Inr d0"
    and h2': "h2 = ?h1\<lparr>objs := (objs ?h1)(?sl := d0)\<rparr>"
    by (auto simp: mutate_Inr)
  from efold_mutate [OF h3] have
    sl: "efold (\<lambda>d w. ebind (swap_instruction L w) (apply_operation_back d)) ws (objs h2 ?sl)
           = Inr (objs h3 ?sl)"
    and nf3: "next_free h3 = next_free h2"
    and fr3: "\<forall>b. b \<noteq> ?sl \<longrightarrow> objs h3 b = objs h2 b"
    by simp_all
  from h2' have o2: "objs h2 ?sl = d0" "\<forall>b. b \<noteq> ?sl \<longrightarrow> objs h2 b = objs h b"
    and nf2: "next_free h2 = Suc ?sl"
    by simp_all
  from d0 sl o2 have bsl: "build_swap_layer r L ws = Inr (objs h3 ?sl)"
    by (simp add: build_swap_layer_def)
  from assms(2) fr3 o2 have nd3: "objs h3 nd = objs h nd"
    by simp
  from h4 obtain d4 where d4: "compose (objs h3 nd) (objs h3 ?sl) order = Inr d4"
    and h': "h' = h3\<lparr>objs := (objs h3)(nd := d4)\<rparr>"
    by (auto simp: mutate_Inr)
  from bsl order d4 L' nd3 h' have "insert_swaps r (objs h nd, L) ws = Inr (objs h' nd, L')"
    by (simp add: insert_swaps_def)
  moreover from h' nf3 nf2 have "next_free h \<le> next_free h'"
    by simp
  moreover from h' fr3 o2 have "\<forall>a<next_free h. a \<noteq> nd \<longrightarrow> objs h' a = objs h a"
    by simp
  ultimately show ?thesis
    by simp
qed

lemma route_gate_obj_sim:
  assumes "route_gate_obj lib self r nd (h, L) gate = Inr (h', L')" and "nd < next_free h"
  shows "route_gate lib self r (objs h nd, L) gate = Inr (objs h' nd, L')
         \<and> next_free h \<le> next_free h'
         \<and> (\<forall>a<next_free h. a \<noteq> nd \<longrightarrow> objs h' a = objs h a)"
proof -
  from assms(1) obtain p0 p1 be where
    p0: "layout_get_v L (qargs gate ! 0) = Inr p0"
    and p1: "layout_get_v L (qargs gate ! 1) = Inr p1"
    and be: "find_better_link lib self p0 p1 L (searchDepth self) = Inr be"
    by (auto simp: route_gate_obj_def ebind_eq_Inr)
  from assms(1) p0 p1 be consider
      ws where "insert_swaps_obj r nd (h, L) ws = Inr (h', L')"
        "route_gate lib self r (objs h nd, L) gate = insert_swaps r (objs h nd, L) ws"
    | "h' = h" "L' = L" "route_gate lib self r (objs h nd, L) gate = Inr (objs h nd, L)"
    by (auto simp: route_gate_obj_def route_gate_def ebind_eq_Inr
        split: option.splits if_splits)
  then show ?thesis
  proof cases
    case 1
    from insert_swaps_obj_sim [OF 1(1) assms(2)] 1(2) show ?thesis
      by simp
  next
    case 2
    then show ?thesis by simp
  qed
qed

lemma efold_sim:
  assumes step: "\<And>h L x h' L'. I h \<Longrightarrow> fo (h, L) x = Inr (h', L') \<Longrightarrow>
                   fp (proj h, L) x = Inr (proj h', L') \<and> I h'"
    and run: "efold fo xs (h, L) = Inr (h', L')" and init: "I h"
  shows "efold fp xs (proj h, L) = Inr (proj h', L') \<and> I h'"
  using run init
proof (induction xs arbitrary: h L)
  case Nil
  then show ?case by simp
next
  case (Cons x xs)
  from Cons.prems(1) obtain h1 L1 where one: "fo (h, L) x = Inr (h1, L1)"
    and rest: "efold fo xs (h1, L1) = Inr (h', L')"
    by (auto simp: ebind_eq_Inr)
  from step [OF Cons.prems(2) one] have s1: "fp (proj h, L) x = Inr (proj h1, L1)" and "I h1"
    by simp_all
  from Cons.IH [OF rest \<open>I h1\<close>] s1 show ?case
    by simp
qed

lemma route_gates_obj_sim:
  assumes "efold (route_gate_obj lib self r nd) gates (h, L) = Inr (h', L')"
    and "nd < next_free h" and "b \<le> next_free h"
    and "\<forall>a<b. a \<noteq> nd \<longrightarrow> objs h a = f a"
  shows "efold (route_gate lib self r) gates (objs h nd, L) = Inr (objs h' nd, L')
         \<and> nd < next_free h' \<and> b \<le> next_free h' \<and> (\<forall>a<b. a \<noteq> nd \<longrightarrow> objs h' a = f a)"
proof -
  let ?I = "\<lambda>h. nd < next_free h \<and> b \<le> next_free h \<and> (\<forall>a<b. a \<noteq> nd \<longrightarrow> objs h a = f a)"
  have "efold (route_gate lib self r) gates ((\<lambda>h. objs h nd) h, L) = Inr ((\<lambda>h. objs h nd) h', L')
        \<and> ?I h'"
  proof (rule efold_sim [where I = ?I and fo = "route_gate_obj lib self r nd", OF _ assms(1)])
    fix h L x h' L'
    assume I: "?I h" and st: "route_gate_obj lib self r nd (h, L) x = Inr (h', L')"
    from I have "nd < next_free h" by simp
    from route_gate_obj_sim [OF st this] I
    show "route_gate lib self r (objs h nd, L) x = Inr (objs h' nd, L') \<and> ?I h'"
      by auto
  next
    from assms(2-4) show "?I h" by simp
  qed
  then show ?thesis by simp
qed

lemma route_layer_obj_sim:
  assumes st: "route_layer_obj lib self r nd dag (h, L) g = Inr (h', L')"
    and nd: "nd < next_free h" and dag: "dag < next_free h" "dag \<noteq> nd"
  shows "route_layer lib self r (objs h nd, L) ((objs h dag)\<lparr>op_nodes := [g]\<rparr>)
           = Inr (objs h' nd, L')
         \<and> next_free h \<le> next_free h'
         \<and> (\<forall>a<next_free h. a \<noteq> nd \<longrightarrow> objs h' a = objs h a)"
proof -
  let ?sub = "next_free h"
  let ?layer = "(objs h dag)\<lparr>op_nodes := [g]\<rparr>"
  let ?h1 = "\<lparr>objs = (objs h)(?sub := DAGCircuit, ?sub := ?layer), next_free = Suc ?sub\<rparr>"
  from dag have dsub: "dag \<noteq> ?sub" by simp
  from nd have ndsub: "nd \<noteq> ?sub" by simp
  from st dsub obtain h2 L2 order where
    gates: "efold (route_gate_obj lib self r nd) (two_qubit_ops ?layer) (?h1, L) = Inr (h2, L2)"
    and order: "reorder_bits L2 (dag_qubits (objs h2 nd)) = Inr order"
    and h': "mutate h2 nd (\<lambda>d. compose d (objs h2 ?sub) order) = Inr h'"
    and L': "L' = L2"
    by (auto simp: route_layer_obj_def serial_layer_obj_def new_DAGCircuit_def ebind_eq_Inr)
  have i1: "nd < next_free ?h1" "Suc ?sub \<le> next_free ?h1"
    "\<forall>a<Suc ?sub. a \<noteq> nd \<longrightarrow> objs ?h1 a = ((objs h)(?sub := ?layer)) a"
    using nd by simp_all
  from route_gates_obj_sim [OF gates i1] ndsub have
    g2: "efold (route_gate lib self r) (two_qubit_ops ?layer) (objs h nd, L) = Inr (objs h2 nd, L2)"
    and nf2: "Suc ?sub \<le> next_free h2"
    and fr2: "\<forall>a<Suc ?sub. a \<noteq> nd \<longrightarrow> objs h2 a = ((objs h)(?sub := ?layer)) a"
    by simp_all
  from fr2 ndsub have sub2: "objs h2 ?sub = ?layer"
    by simp
  from h' obtain d where d: "compose (objs h2 nd) ?layer order = Inr d"
    and h'': "h' = h2\<lparr>objs := (objs h2)(nd := d)\<rparr>"
    by (auto simp: mutate_Inr sub2)
  from g2 order d h'' L' have
    "route_layer lib self r (objs h nd, L) ?layer = Inr (objs h' nd, L')"
    by (simp add: route_layer_def)
  moreover from h'' nf2 have "next_free h \<le> next_free h'"
    by simp
  moreover from h'' fr2 have "\<forall>a<next_free h. a \<noteq> nd \<longrightarrow> objs h' a = objs h a"
    by simp
  ultimately show ?thesis by simp
qed

lemma efold_map: "efold f (map k xs) s = efold (\<lambda>s x. f s (k x)) xs s"
  by (induction xs arbitrary: s) (simp_all add: ebind_def split: sum.splits)

lemma route_layers_obj_sim:
  assumes "efold (route_layer_obj lib self r nd dag) gs (h, L) = Inr (h', L')"
    and "nd < next_free h" and "dag < nd"
  shows "efold (route_layer lib self r) (map (\<lambda>g. (objs h dag)\<lparr>op_nodes := [g]\<rparr>) gs) (objs h nd, L)
           = Inr (objs h' nd, L')
         \<and> (\<forall>a<nd. objs h' a = objs h a)"
proof -
  let ?I = "\<lambda>k. nd < next_free k \<and> (\<forall>a<nd. objs k a = objs h a)"
  have "efold (\<lambda>s g. route_layer lib self r s ((objs h dag)\<lparr>op_nodes := [g]\<rparr>)) gs
          ((\<lambda>k. objs k nd) h, L) = Inr ((\<lambda>k. objs k nd) h', L') \<and> ?I h'"
  proof (rule efold_sim [where I = ?I and fo = "route_layer_obj lib self r nd dag", OF _ assms(1)])
    fix k K x k' K'
    assume I: "?I k" and st: "route_layer_obj lib self r nd dag (k, K) x = Inr (k', K')"
    from I assms(3) have a: "nd < next_free k" "dag < next_free k" "dag \<noteq> nd"
      and d: "objs k dag = objs h dag"
      by simp_all
    from route_layer_obj_sim [OF st a] d I
    show "route_layer lib self r (objs k nd, K) ((objs h dag)\<lparr>op_nodes := [x]\<rparr>)
            = Inr (objs k' nd, K') \<and> ?I k'"
      by auto
  next
    from assms(2) show "?I h" by simp
  qed
  then show ?thesis
    by (simp add: efold_map)
qed

lemma add_qregs_qregs:
  "efold add_qreg rs d = Inr d' \<Longrightarrow> qregs d' = qregs d @ rs \<and> cregs d' = cregs d"
proof (induction rs arbitrary: d)
  case Nil
  then show ?case by simp
next
  case (Cons r rs)
  from Cons.prems obtain d1 where one: "add_qreg d r = Inr d1"
    and rest: "efold add_qreg rs d1 = Inr d'"
    by (auto simp: ebind_eq_Inr)
  from one have "qregs d1 = qregs d @ [r]" "cregs d1 = cregs d"
    by (auto simp: add_qreg_def split: if_splits)
  with Cons.IH [OF rest] show ?case
    by simp
qed

lemma add_cregs_cregs:
  "efold add_creg rs d = Inr d' \<Longrightarrow> cregs d' = cregs d @ rs \<and> qregs d' = qregs d"
proof (induction rs arbitrary: d)
  case Nil
  then show ?case by simp
next
  case (Cons r rs)
  from Cons.prems obtain d1 where one: "add_creg d r = Inr d1"
    and rest: "efold add_creg rs d1 = Inr d'"
    by (auto simp: ebind_eq_Inr)
  from one have "cregs d1 = cregs d @ [r]" "qregs d1 = qregs d"
    by (auto simp: add_creg_def split: if_splits)
  with Cons.IH [OF rest] show ?case
    by simp
qed

lemma route_layers_registers:
  assumes "efold (route_layer lib self r) layers st = Inr st'"
  shows "qregs (fst st') = qregs (fst st) \<and> cregs (fst st') = cregs (fst st)"
  using assms
proof (rule efold_invariant
    [where P = "\<lambda>s. qregs (fst s) = qregs (fst st) \<and> cregs (fst s) = cregs (fst st)"])
  show "qregs (fst st) = qregs (fst st) \<and> cregs (fst st) = cregs (fst st)"
    by simp
next
  fix s x s'
  assume P: "qregs (fst s) = qregs (fst st) \<and> cregs (fst s) = cregs (fst st)"
    and step: "route_layer lib self r s x = Inr s'"
  from step obtain s1 order where
    g: "efold (route_gate lib self r) (two_qubit_ops x) s = Inr s1"
    and c: "compose (fst s1) x order = Inr (fst s')"
    by (auto simp: route_layer_def ebind_eq_Inr)
  obtain nd L nd1 L1 where s: "s = (nd, L)" "s1 = (nd1, L1)"
    by (cases s, cases s1) auto
  from route_gates_Inr [OF g [unfolded s]] have "qregs nd1 = qregs nd \<and> cregs nd1 = cregs nd"
    by auto
  moreover from compose_Inr [OF c] s have "qregs (fst s') = qregs nd1 \<and> cregs (fst s') = cregs nd1"
    by auto
  ultimately show "qregs (fst s') = qregs (fst st) \<and> cregs (fst s') = cregs (fst st)"
    using P s by simp
qed

lemma run_state_registers:
  assumes "run_state lib self dag = Inr st"
  shows "qregs (fst st) = qregs dag \<and> cregs (fst st) = cregs dag"
proof -
  from assms obtain nd0 nd1 n where q: "efold add_qreg (qregs dag) DAGCircuit = Inr nd0"
    and c: "efold add_creg (cregs dag) nd0 = Inr nd1"
    and layers: "efold (route_layer lib self (''q'', n)) (serial_layers dag)
                   (nd1, generate_trivial_layout (''q'', n)) = Inr st"
    by (auto simp: run_state_def ebind_eq_Inr Let_def split: if_splits option.splits)
  from add_qregs_qregs [OF q] add_cregs_cregs [OF c] route_layers_registers [OF layers]
  show ?thesis
    by (simp add: DAGCircuit_def)
qed

subsubsection \<open>Positive weights\<close>




subsection \<open>Routing correctness\<close>

text \<open>
  C1. Claim: for every program and every topology that satisfies the construction
  invariants, every two-qubit operation of the routed program acts on two physical
  qubits that form a link.

  The ring \<open>ring5\<close> is connected, symmetric, without self links and has weights in
  \<open>(0, 1]\<close>. The program is one \<open>cx\<close> on logical qubits 1 and 2, which the trivial
  layout puts on physical qubits 1 and 2, two hops apart. With the edges in the order
  \<open>order_py38\<close>, \<^verbatim>\<open>find_better_link\<close> reports the link \<open>(2, 4)\<close>;
  \<^verbatim>\<open>find_shortest_path\<close> from \<open>(1, 2)\<close> to \<open>(2, 4)\<close> gives no path for either qubit,
  so no swap is inserted, and the fall-back chain is skipped because a better link was
  reported. The gate is emitted on physical qubits 1 and 2, which are not linked. The
  output is the same for the two other orders.
\<close>

theorem run_ring5_emits_gate_off_link:
  "run reference_library (ring5 order_py38) (program 5 [cx 1 2]) = Inr (program 5 [cx 1 2])
   \<and> find_better_link reference_library (ring5 order_py38) 1 2
        (generate_trivial_layout (''q'', 5)) 2 = Inr (Some (2, 4))
   \<and> find_shortest_path reference_library (ring5 order_py38) (1, 2) (2, 4) = Inr (None, None)
   \<and> \<not> nx_has_edge (qubitAccuracy (ring5 order_py38)) 1 2
   \<and> distance (couplingMap (ring5 order_py38)) 1 2 = Inr 2
   \<and> run reference_library (ring5 order_py37) (program 5 [cx 1 2]) = Inr (program 5 [cx 1 2])
   \<and> run reference_library (ring5 order_sorted) (program 5 [cx 1 2]) = Inr (program 5 [cx 1 2])"
  by code_simp

subsection \<open>The search for a better link\<close>

text \<open>
  C2. Claim: \<^verbatim>\<open>find_better_link\<close> computes the path accuracy of every candidate with
  \<open>(p0, p1)\<close> as the source pair, returns the candidate with the highest such accuracy,
  and returns \<^verbatim>\<open>None\<close> when no candidate is strictly above the baseline.

  On \<open>ring5 order_py38\<close> with end points \<open>(1, 2)\<close> the baseline is \<open>1/8\<close>. With
  \<open>(1, 2)\<close> as the source pair the candidates \<open>(0, 1)\<close>, \<open>(2, 4)\<close>, \<open>(3, 4)\<close>,
  \<open>(0, 2)\<close>, \<open>(1, 3)\<close> have path accuracies \<open>1/2\<close>, \<open>0\<close>, \<open>1\<close>, \<open>0\<close>, \<open>1\<close>. The
  loop passes \<^verbatim>\<open>bestEdge\<close> as the source pair, so after \<open>(0, 1)\<close> has been accepted the
  later candidates are measured from \<open>(0, 1)\<close>, where \<open>(2, 4)\<close> gets \<open>1\<close>, and after
  \<open>(2, 4)\<close> has been accepted from \<open>(2, 4)\<close>, where \<open>(3, 4)\<close> gets \<open>0\<close>. The function
  returns \<open>(2, 4)\<close>, whose path accuracy from \<open>(1, 2)\<close> is \<open>0\<close>.
\<close>

theorem find_better_link_ring5_not_best:
  "find_better_link reference_library (ring5 order_py38) 1 2
       (generate_trivial_layout (''q'', 5)) 2 = Inr (Some (2, 4))
   \<and> baseline_accuracy (ring5 order_py38) 1 2 = Inr (1 / 8)
   \<and> uniqueEdges reference_library (ring5 order_py38)
       = [(0, 1), (2, 4), (3, 4), (0, 2), (1, 3)]
   \<and> map (\<lambda>e. calc_path_accuracy reference_library (ring5 order_py38) (1, 2) e
                 (generate_trivial_layout (''q'', 5)))
        (uniqueEdges reference_library (ring5 order_py38))
       = [Inr (1 / 2), Inr 0, Inr 1, Inr 0, Inr 1]
   \<and> calc_path_accuracy reference_library (ring5 order_py38) (0, 1) (2, 4)
        (generate_trivial_layout (''q'', 5)) = Inr 1
   \<and> calc_path_accuracy reference_library (ring5 order_py38) (2, 4) (3, 4)
        (generate_trivial_layout (''q'', 5)) = Inr 0"
  by code_simp

subsection \<open>The baseline accuracy of two qubits that are not linked\<close>




subsection \<open>Candidates without a path\<close>




subsection \<open>Operations on qubits that are already adjacent\<close>

text \<open>
  C5. Claim: when the end points of an operation are already adjacent the router inserts
  no swap and passes the operation through, re-addressed; on a complete graph it never
  inserts a swap.

  The pass looks for a better link also when the end points are linked, and moves the
  qubits when it finds one; that is its purpose. The theorem: when the end points are at
  distance 1 and \<^verbatim>\<open>find_better_link\<close> reports no better link, the gate changes neither
  the output nor the layout, and the layer appends the operation re-addressed through the
  layout. On a complete graph the distance is 1 for every pair, so there the theorem
  covers every operation for which no better link is reported.
\<close>

theorem adjacent_without_better_link:
  assumes "layout_bij n L" and "qregs nd = [(''q'', n)]" and "qregs subdag = [(''q'', n)]"
    and "op_nodes subdag = [gate]"
    and "layout_get_v L (qargs gate ! 0) = Inr p0"
    and "layout_get_v L (qargs gate ! 1) = Inr p1"
    and "find_better_link lib self p0 p1 L (searchDepth self) = Inr None"
    and "distance (couplingMap self) p0 p1 = Inr 1"
  shows "route_gate lib self r (nd, L) gate = Inr (nd, L)
         \<and> route_layer lib self r (nd, L) subdag
             = Inr (nd\<lparr>op_nodes := op_nodes nd @
                       [gate\<lparr>qargs := map (readdress L) (qargs gate)\<rparr>]\<rparr>, L)"
proof -
  from assms(5-8) have g: "route_gate lib self r (nd, L) gate = Inr (nd, L)"
    by (simp add: route_gate_def)
  have "two_qubit_ops subdag = [gate] \<or> two_qubit_ops subdag = []"
    using assms(4) by (simp add: two_qubit_ops_def)
  with g have "efold (route_gate lib self r) (two_qubit_ops subdag) (nd, L) = Inr (nd, L)"
    by auto
  moreover from compose_layout [OF assms(1-3)] assms(4) obtain order where
    "reorder_bits L (dag_qubits nd) = Inr order"
    "compose nd subdag order
       = Inr (nd\<lparr>op_nodes := op_nodes nd @
                 [gate\<lparr>qargs := map (readdress L) (qargs gate)\<rparr>]\<rparr>)"
    by auto
  ultimately show ?thesis
    using g by (simp add: route_layer_def)
qed

theorem adjacent_without_better_link_witness:
  "route_layer reference_library (line3u None) (''q'', 3)
     (program 3 [], generate_trivial_layout (''q'', 3)) (program 3 [cx 0 1])
   = Inr (program 3 [cx 0 1], generate_trivial_layout (''q'', 3))"
proof -
  let ?L = "generate_trivial_layout (''q'', 3)"
  have h1: "layout_bij 3 ?L"
    by (rule trivial_layout_bij)
  have h2: "qregs (program 3 []) = [(''q'', 3)]" "qregs (program 3 [cx 0 1]) = [(''q'', 3)]"
    by (simp_all add: program_def)
  have h3: "op_nodes (program 3 [cx 0 1]) = [cx 0 1]"
    by (simp add: program_def)
  have h4: "layout_get_v ?L (qargs (cx 0 1) ! 0) = Inr 0"
    by code_simp
  have h5: "layout_get_v ?L (qargs (cx 0 1) ! 1) = Inr 1"
    by code_simp
  have h6: "find_better_link reference_library (line3u None) 0 1 ?L (searchDepth (line3u None))
              = Inr None"
    by code_simp
  have h7: "distance (couplingMap (line3u None)) 0 1 = Inr 1"
    by code_simp
  have re: "(cx 0 1)\<lparr>qargs := map (readdress ?L) (qargs (cx 0 1))\<rparr> = cx 0 1"
    by code_simp
  from adjacent_without_better_link [OF h1 h2 h3 h4 h5 h6 h7, of "(''q'', 3)"] re
  show ?thesis
    by (simp add: program_def)
qed

text \<open>
  The complete graph on three qubits with a weak link \<open>(0, 1)\<close>: the \<open>cx\<close> on the
  linked qubits 0 and 1 is moved to the link \<open>(0, 2)\<close> by a swap.
\<close>

theorem triangle_swaps_adjacent_qubits:
  "run reference_library triangle (program 3 [cx 0 1])
     = Inr (program 3 [SwapGate (''q'', 1) (''q'', 2), cx 0 2])
   \<and> nx_has_edge (qubitAccuracy triangle) 0 1
   \<and> distance (couplingMap triangle) 0 1 = Inr 1
   \<and> distance (couplingMap triangle) 0 2 = Inr 1
   \<and> distance (couplingMap triangle) 1 2 = Inr 1"
  by code_simp

subsection \<open>The starting layout\<close>

text \<open>
  C6. Claim: routing starts from the layout given to the constructor, and from the
  trivial layout only when none was given.

  \<open>run\<close> never reads \<^verbatim>\<open>self.initial_layout\<close>: its result is the same for every value
  of the field. On the line \<open>0 - 1 - 2\<close> with the layout \<open>swapped01\<close> given, the
  \<open>cx\<close> on logical qubits 0 and 2 sits on the linked physical qubits 1 and 2 and needs
  no swap; the code starts from the trivial layout and inserts one.
\<close>

theorem run_ignores_initial_layout:
  "run lib (self\<lparr>initial_layout := il\<rparr>) dag = run lib self dag
   \<and> run reference_library (line3u (Some swapped01)) (program 3 [cx 0 2])
       = Inr (program 3 [SwapGate (''q'', 0) (''q'', 1), cx 1 2])
   \<and> spec_run reference_library (line3u (Some swapped01)) (program 3 [cx 0 2])
       = Inr (program 3 [cx 1 2])"
proof -
  have "run lib (self\<lparr>initial_layout := il\<rparr>) dag = run lib self dag"
    by (simp add: run_def run_state_def Let_def cong: if_cong option.case_cong)
  moreover have "run reference_library (line3u (Some swapped01)) (program 3 [cx 0 2])
       = Inr (program 3 [SwapGate (''q'', 0) (''q'', 1), cx 1 2])"
    by code_simp
  moreover have "spec_run reference_library (line3u (Some swapped01)) (program 3 [cx 0 2])
       = Inr (program 3 [cx 1 2])"
    by code_simp
  ultimately show ?thesis by simp
qed

subsection \<open>Swap chains\<close>




subsection \<open>The layout is a bijection\<close>

text \<open>
  C8. Claim: the layout is always a total bijection between logical and physical qubits;
  after every swap, \<open>physicalOf(logicalOf(p)) = p\<close> for every physical qubit \<open>p\<close>.

  The layout is made from the register \<open>q\<close> of the program, of size \<open>n\<close>, and the
  device may have more than \<open>n\<close> qubits. The theorem: the trivial layout is a bijection
  between the qubits of \<open>q\<close> and the physical qubits below \<open>n\<close>; every single
  \<^verbatim>\<open>swap\<close> that succeeds keeps it one; the layout that \<open>run\<close> ends with is one; and
  in such a layout both round trips are the identity.
\<close>

theorem layout_stays_bijection:
  "layout_bij n (generate_trivial_layout (''q'', n))
   \<and> (\<forall>L a b L'. layout_bij n L \<longrightarrow> layout_swap L a b = Inr L' \<longrightarrow> layout_bij n L')
   \<and> (\<forall>lib self dag st. run_state lib self dag = Inr st \<longrightarrow> map_of (qregs dag) ''q'' = Some n
        \<longrightarrow> layout_bij n (snd st))
   \<and> (\<forall>L. layout_bij n L \<longrightarrow>
        (\<forall>p<n. ebind (layout_get_p L p) (layout_get_v L) = Inr p)
        \<and> (\<forall>i<n. ebind (layout_get_v L (''q'', i)) (layout_get_p L) = Inr (''q'', i)))"
proof (intro conjI allI impI)
  show "layout_bij n (generate_trivial_layout (''q'', n))"
    by (rule trivial_layout_bij)
next
  fix L a b L'
  assume "layout_bij n L" "layout_swap L a b = Inr L'"
  then show "layout_bij n L'"
    by (rule layout_swap_bij)
next
  fix lib self dag st
  assume "run_state lib self dag = Inr st" "map_of (qregs dag) ''q'' = Some n"
  then show "layout_bij n (snd st)"
    by (rule run_state_bij)
next
  fix L p
  assume "layout_bij n L" "p < n"
  then show "ebind (layout_get_p L p) (layout_get_v L) = Inr p"
    by (rule layout_bij_roundtrip_p)
next
  fix L i
  assume "layout_bij n L" "i < n"
  then show "ebind (layout_get_v L (''q'', i)) (layout_get_p L) = Inr (''q'', i)"
    by (rule layout_bij_roundtrip_v)
qed

text \<open>The theorem on a run that inserts two swaps.\<close>

theorem layout_stays_bijection_witness:
  "(case run_state reference_library ring4w (program 4 [cx 1 0]) of
      Inl e \<Rightarrow> False
    | Inr st \<Rightarrow> layout_bij 4 (snd st)
        \<and> op_nodes (fst st) = [SwapGate (''q'', 0) (''q'', 3), SwapGate (''q'', 3) (''q'', 2), cx 1 2])"
proof -
  have "case run_state reference_library ring4w (program 4 [cx 1 0]) of
          Inl e \<Rightarrow> False
        | Inr st \<Rightarrow> op_nodes (fst st)
            = [SwapGate (''q'', 0) (''q'', 3), SwapGate (''q'', 3) (''q'', 2), cx 1 2]"
    by code_simp
  then obtain st where st: "run_state reference_library ring4w (program 4 [cx 1 0]) = Inr st"
    and ops: "op_nodes (fst st) = [SwapGate (''q'', 0) (''q'', 3), SwapGate (''q'', 3) (''q'', 2), cx 1 2]"
    by (cases "run_state reference_library ring4w (program 4 [cx 1 0])") auto
  have q: "map_of (qregs (program 4 [cx 1 0])) ''q'' = Some 4"
    by (simp add: program_def)
  from layout_stays_bijection [of 4] st q have "layout_bij 4 (snd st)"
    by blast
  with st ops show ?thesis by simp
qed

text \<open>
  A program of two qubits on the line \<open>0 - 1 - 2\<close>: the run succeeds, and physical
  qubit 2 of the device has no logical qubit in the layout.
\<close>

theorem layout_misses_spare_physical_qubit:
  "(case run_state reference_library (line3u None) (program 2 [cx 0 1]) of
      Inl e \<Rightarrow> False
    | Inr st \<Rightarrow> layout_get_p (snd st) 2 = Inl KeyError \<and> op_nodes (fst st) = [cx 0 1])
   \<and> 2 \<in> set (physical_qubits (couplingMap (line3u None)))"
  by code_simp

subsection \<open>Program order\<close>



subsection \<open>The input circuit is not changed\<close>

text \<open>
  C10. Claim: \<open>run\<close> never mutates its input program: swaps and re-addressed
  operations go to a freshly constructed output circuit into which the registers of the
  input are copied, and the input circuit is unchanged when routing completes.

  On the store: when \<open>run_obj\<close> returns, the circuit at the address of the input, and
  every other object that existed before the call, has the value it had before; the
  returned circuit is at the address that was free when the call began; it has the
  registers of the input; and its value and the final layout are what \<open>run_state\<close>
  computes from the value of the input.
\<close>

theorem run_leaves_input_unchanged:
  assumes "run_obj lib self h dag = Inr (new_dag, h', L)" and "dag < next_free h"
  shows "objs h' dag = objs h dag
         \<and> (\<forall>a<next_free h. objs h' a = objs h a)
         \<and> new_dag = next_free h
         \<and> qregs (objs h' new_dag) = qregs (objs h dag)
         \<and> cregs (objs h' new_dag) = cregs (objs h dag)
         \<and> run_state lib self (objs h dag) = Inr (objs h' new_dag, L)"
proof -
  let ?nd = "next_free h"
  let ?h1 = "\<lparr>objs = (objs h)(?nd := DAGCircuit), next_free = Suc ?nd\<rparr>"
  from assms(2) have dn: "dag \<noteq> ?nd" by simp
  then have d1: "objs ?h1 dag = objs h dag" by simp
  from assms(1) have nd: "new_dag = ?nd"
    by (auto simp: run_obj_def new_DAGCircuit_def ebind_eq_Inr split: if_splits option.splits)
  from assms(1) d1 obtain h2 where
    h2: "efold (\<lambda>h qreg. mutate h ?nd (\<lambda>d. add_qreg d qreg)) (qregs (objs h dag)) ?h1 = Inr h2"
    by (auto simp: run_obj_def new_DAGCircuit_def ebind_eq_Inr)
  from efold_mutate [OF h2] dn have
    q: "efold add_qreg (qregs (objs h dag)) DAGCircuit = Inr (objs h2 ?nd)"
    and nf2: "next_free h2 = Suc ?nd" and fr2: "\<forall>b. b \<noteq> ?nd \<longrightarrow> objs h2 b = objs h b"
    by simp_all
  from fr2 dn have d2: "objs h2 dag = objs h dag" by simp
  from assms(1) h2 d1 d2 obtain h3 where
    h3: "efold (\<lambda>h creg. mutate h ?nd (\<lambda>d. add_creg d creg)) (cregs (objs h dag)) h2 = Inr h3"
    by (auto simp: run_obj_def new_DAGCircuit_def ebind_eq_Inr)
  from efold_mutate [OF h3] have
    c: "efold add_creg (cregs (objs h dag)) (objs h2 ?nd) = Inr (objs h3 ?nd)"
    and nf3: "next_free h3 = next_free h2" and fr3: "\<forall>b. b \<noteq> ?nd \<longrightarrow> objs h3 b = objs h2 b"
    by simp_all
  from fr3 fr2 dn have d3: "objs h3 dag = objs h dag" by simp
  from assms(1) h2 h3 d1 d2 d3 obtain n where
    size: "\<not> length (dag_qubits (objs h dag)) > length (physical_qubits (couplingMap self))"
    and n: "map_of (qregs (objs h dag)) ''q'' = Some n"
    and layers: "efold (route_layer_obj lib self (''q'', n) ?nd dag) (op_nodes (objs h dag))
                   (h3, generate_trivial_layout (''q'', n)) = Inr (h', L)"
    by (auto simp: run_obj_def new_DAGCircuit_def ebind_eq_Inr split: if_splits option.splits)
  from nf3 nf2 have "?nd < next_free h3" by simp
  from route_layers_obj_sim [OF layers this assms(2)] d3 have
    pure: "efold (route_layer lib self (''q'', n)) (serial_layers (objs h dag))
             (objs h3 ?nd, generate_trivial_layout (''q'', n)) = Inr (objs h' ?nd, L)"
    and fr: "\<forall>a<?nd. objs h' a = objs h3 a"
    by (simp_all add: serial_layers_def)
  from q c size n pure have rs: "run_state lib self (objs h dag) = Inr (objs h' ?nd, L)"
    by (simp add: run_state_def)
  from fr fr3 fr2 have frame: "\<forall>a<?nd. objs h' a = objs h a"
    by simp
  from run_state_registers [OF rs] frame assms(2) nd rs show ?thesis
    by simp
qed

text \<open>The theorem on a run that inserts two swaps.\<close>

theorem run_leaves_input_unchanged_witness:
  "(case run_obj reference_library ring4w (store_of (program 4 [cx 1 0])) 0 of
      Inl e \<Rightarrow> False
    | Inr (new_dag, h', L) \<Rightarrow>
        new_dag = 1
        \<and> objs h' 0 = program 4 [cx 1 0]
        \<and> objs h' 1 = program 4 [SwapGate (''q'', 0) (''q'', 3), SwapGate (''q'', 3) (''q'', 2), cx 1 2])"
proof -
  let ?h = "store_of (program 4 [cx 1 0])"
  have ev: "case run_obj reference_library ring4w ?h 0 of
          Inl e \<Rightarrow> False
        | Inr (new_dag, h', L) \<Rightarrow> objs h' 1
            = program 4 [SwapGate (''q'', 0) (''q'', 3), SwapGate (''q'', 3) (''q'', 2), cx 1 2]"
    by code_simp
  then obtain new_dag h' L where r: "run_obj reference_library ring4w ?h 0 = Inr (new_dag, h', L)"
    by (cases "run_obj reference_library ring4w ?h 0") auto
  have lt: "0 < next_free ?h"
    by (simp add: store_of_def)
  from run_leaves_input_unchanged [OF r lt] have
    "objs h' 0 = objs ?h 0" "new_dag = next_free ?h"
    by simp_all
  with ev r show ?thesis
    by (simp add: store_of_def)
qed

end
